theory Spec2Isabelle
  imports Main "HOL-Library.Word"
begin

section \<open>JavaScript strings\<close>

text \<open>
  The string operations that \<^verbatim>\<open>services/geminiService.ts\<close> and the two application
  components use, on \<open>string\<close> (one \<open>char\<close> per code unit; code units above 255 are
  outside this model).
\<close>

fun startsWith :: "string \<Rightarrow> string \<Rightarrow> bool" where
  "startsWith s [] = True"
| "startsWith [] (m # ms) = False"
| "startsWith (c # cs) (m # ms) = (c = m \<and> startsWith cs ms)"

text \<open>
  \<^verbatim>\<open>s.indexOf(m)\<close>: the least position at which \<open>m\<close> occurs in \<open>s\<close>, or \<open>-1\<close>.
  The helper carries the position already passed.
\<close>

fun indexOf_from :: "string \<Rightarrow> string \<Rightarrow> nat \<Rightarrow> int" where
  "indexOf_from [] m k = (if m = [] then int k else - 1)"
| "indexOf_from (c # cs) m k =
     (if startsWith (c # cs) m then int k else indexOf_from cs m (Suc k))"

definition indexOf :: "string \<Rightarrow> string \<Rightarrow> int" where
  "indexOf s m = indexOf_from s m 0"

text \<open>\<^verbatim>\<open>s.includes(m)\<close> (\<open>includes\<close> is a keyword of Isabelle, hence the suffix).\<close>

definition includes_str :: "string \<Rightarrow> string \<Rightarrow> bool" where
  "includes_str s m = (indexOf s m \<noteq> - 1)"

text \<open>
  \<^verbatim>\<open>s.substring(a, b)\<close> and \<^verbatim>\<open>s.substring(a)\<close>: both indices are clamped to
  \<open>0 .. length s\<close> and swapped when the first is the larger.
\<close>

definition clamp_index :: "string \<Rightarrow> int \<Rightarrow> nat" where
  "clamp_index s i = (if i < 0 then 0 else min (nat i) (length s))"

definition substring :: "string \<Rightarrow> int \<Rightarrow> int \<Rightarrow> string" where
  "substring s a b =
     (let a' = clamp_index s a; b' = clamp_index s b;
          lo = min a' b'; hi = max a' b'
      in take (hi - lo) (drop lo s))"

definition substring_from :: "string \<Rightarrow> int \<Rightarrow> string" where
  "substring_from s a = drop (clamp_index s a) s"

text \<open>
  \<^verbatim>\<open>s.replace(pat, rep)\<close> with a string pattern: only the first occurrence is
  replaced. The source only replaces by the empty string, so the \<^verbatim>\<open>$\<close> patterns of
  the replacement text play no role.
\<close>

definition replace :: "string \<Rightarrow> string \<Rightarrow> string \<Rightarrow> string" where
  "replace s pat rep =
     (let i = indexOf s pat
      in if i = - 1 then s
         else take (nat i) s @ rep @ drop (nat i + length pat) s)"

text \<open>
  \<^verbatim>\<open>s.trim()\<close>: white space and line terminators are dropped at both ends. Among the
  code units below 256 these are tab, line feed, vertical tab, form feed, carriage
  return, space and the no-break space.
\<close>

definition is_ws :: "char \<Rightarrow> bool" where
  "is_ws c = (of_char c \<in> {9, 10, 11, 12, 13, 32, 160 :: nat})"

definition trim :: "string \<Rightarrow> string" where
  "trim s = rev (dropWhile is_ws (rev (dropWhile is_ws s)))"

section \<open>The remote analysis service (\<^verbatim>\<open>services/geminiService.ts\<close>)\<close>

text \<open>A thrown JavaScript value: its \<^verbatim>\<open>name\<close> and its \<^verbatim>\<open>message\<close>.\<close>

record JsError =
  ename :: string
  emessage :: string

text \<open>\<^verbatim>\<open>new Error(msg)\<close>.\<close>

definition Error :: "string \<Rightarrow> JsError" where
  "Error msg = \<lparr>ename = ''Error'', emessage = msg\<rparr>"

text \<open>A \<^verbatim>\<open>Blob\<close>: its bytes and its \<^verbatim>\<open>type\<close>; \<^verbatim>\<open>blob.size\<close> is the number of bytes.\<close>

record Blob =
  bytes :: "8 word list"
  btype :: string

definition bsize :: "Blob \<Rightarrow> nat" where
  "bsize b = length (bytes b)"

text \<open>
  What \<^verbatim>\<open>analyzeAudio\<close> meets outside itself: the build-time constant
  \<^verbatim>\<open>process.env.API_KEY\<close> (\<open>None\<close> when undefined), the outcome of reading the blob
  as a data URL (\<^verbatim>\<open>blobToBase64\<close>: the base64 text, or the reader's error), and the
  outcome of \<^verbatim>\<open>ai.models.generateContent\<close> (the \<^verbatim>\<open>text\<close> of the response, \<open>None\<close>
  when undefined, or the rejection).
\<close>

record genai_env =
  API_KEY :: "string option"
  blobToBase64_result :: "JsError + string"
  generateContent_result :: "JsError + string option"

text \<open>The effects of one call, in order.\<close>

datatype effect =
    CreateClient string
  | ReadBlob Blob
  | GenerateContent string string string
  | ConsoleError string JsError

definition api_key_missing :: string where
  "api_key_missing = ''API Key is missing. Please ensure your API key is configured.''"

definition no_summary :: string where
  "no_summary = ''Could not generate structured summary.''"

text \<open>
  Lines 61 to 76 of \<^verbatim>\<open>analyzeAudio\<close>: the response text is cut at the first
  \<^verbatim>\<open>## Summary\<close>.
\<close>

definition split_sections :: "string \<Rightarrow> string \<times> string" where
  "split_sections text =
     (let summaryIndex = indexOf text ''## Summary''
      in if summaryIndex \<noteq> - 1
         then (trim (replace (substring text 0 summaryIndex) ''## Transcription'' ''''),
               trim (replace (substring_from text summaryIndex) ''## Summary'' ''''))
         else (text, no_summary))"

text \<open>
  \<^verbatim>\<open>analyzeAudio\<close>. The \<^verbatim>\<open>catch\<close> logs the error and throws it again, so every
  failure ends the trace with a \<open>ConsoleError\<close> and returns \<open>Inl\<close>.
\<close>

definition analyzeAudio :: "genai_env \<Rightarrow> Blob \<Rightarrow> effect list \<times> (JsError + string \<times> string)" where
  "analyzeAudio env audioBlob =
     (let log = ''Error analyzing audio with Gemini:'' in
      case API_KEY env of
        None \<Rightarrow> ([ConsoleError log (Error api_key_missing)], Inl (Error api_key_missing))
      | Some apiKey \<Rightarrow>
          if apiKey = '''' then
            ([ConsoleError log (Error api_key_missing)], Inl (Error api_key_missing))
          else
            (case blobToBase64_result env of
               Inl e \<Rightarrow> ([CreateClient apiKey, ReadBlob audioBlob, ConsoleError log e], Inl e)
             | Inr base64Audio \<Rightarrow>
                 (let mimeType = (if btype audioBlob = '''' then ''audio/webm'' else btype audioBlob);
                      call = GenerateContent ''gemini-2.5-flash'' mimeType base64Audio
                  in case generateContent_result env of
                       Inl e \<Rightarrow>
                         ([CreateClient apiKey, ReadBlob audioBlob, call, ConsoleError log e], Inl e)
                     | Inr response_text \<Rightarrow>
                         (let text = (case response_text of None \<Rightarrow> '''' | Some t \<Rightarrow> t)
                          in ([CreateClient apiKey, ReadBlob audioBlob, call],
                              Inr (split_sections text))))))"

section \<open>The data model (\<^verbatim>\<open>types.ts\<close>) and the platform objects\<close>

text \<open>
  \<^verbatim>\<open>Recording\<close>. The field \<^verbatim>\<open>id\<close> is \<open>id_rec\<close> here (\<open>id\<close> is the identity
  function of HOL). The optional fields are \<open>None\<close> until an analysis sets them.
\<close>

record Recording =
  id_rec :: string
  blob :: Blob
  url :: string
  timestamp :: nat
  duration :: nat
  name :: string
  transcription :: "string option"
  summary :: "string option"

datatype RecorderState = IDLE | PREPARING | RECORDING | PAUSED | PROCESSING

text \<open>
  A media stream is the list of its tracks (\<^verbatim>\<open>getTracks()\<close>); a track has an identity
  and a kind. A stopped track is recorded in the application state below.
\<close>

datatype track_kind = Audio | Video

record MediaStreamTrack =
  track_id :: nat
  kind :: track_kind

type_synonym MediaStream = "MediaStreamTrack list"

definition getAudioTracks :: "MediaStream \<Rightarrow> MediaStream" where
  "getAudioTracks st = filter (\<lambda>t. kind t = Audio) st"

definition getVideoTracks :: "MediaStream \<Rightarrow> MediaStream" where
  "getVideoTracks st = filter (\<lambda>t. kind t = Video) st"

text \<open>
  The stream of the mixing destination (\<^verbatim>\<open>destination.stream\<close>): its own tracks, and
  the source streams that were connected into the destination, in the order of the
  \<^verbatim>\<open>connect\<close> calls.
\<close>

record MixedStream =
  mixed_tracks :: MediaStream
  mixed_sources :: "MediaStream list"

datatype AudioContextState = running | closed

datatype RecordingState = inactive | recording | paused

text \<open>
  A \<^verbatim>\<open>MediaRecorder\<close> together with what its two handlers close over. \<open>stream\<close>,
  \<open>mimeType\<close> and \<open>rstate\<close> are the attributes of the platform object;
  \<open>stop_queued\<close> says that the platform still owes the \<^verbatim>\<open>stop\<close> event of a
  \<^verbatim>\<open>stop()\<close> call. \<open>chunks\<close> is the array \<^verbatim>\<open>chunks\<close> of the call of
  \<^verbatim>\<open>startRecording\<close> that made the recorder; \<open>timer_closure\<close> is the binding
  \<^verbatim>\<open>timer\<close> of the render whose \<^verbatim>\<open>startRecording\<close> was called (a \<^verbatim>\<open>const\<close> of that
  render: later \<^verbatim>\<open>setTimer\<close> calls give later renders a new binding and leave this one
  as it is); \<open>mimeType_closure\<close> is the local constant \<^verbatim>\<open>mimeType\<close> of that call.
\<close>

record MediaRecorder =
  stream :: MixedStream
  mimeType :: string
  rstate :: RecordingState
  stop_queued :: bool
  chunks :: "Blob list"
  timer_closure :: nat
  mimeType_closure :: string

text \<open>\<^verbatim>\<open>new Blob(chunks, { type })\<close>.\<close>

definition new_Blob :: "Blob list \<Rightarrow> string \<Rightarrow> Blob" where
  "new_Blob parts ty = \<lparr>bytes = concat (map bytes parts), btype = ty\<rparr>"

text \<open>\<^verbatim>\<open>n.toString()\<close> of a natural number: its decimal digits.\<close>

definition digit_char :: "nat \<Rightarrow> char" where
  "digit_char d = ''0123456789'' ! d"

function toString :: "nat \<Rightarrow> string" where
  "toString n = (if n < 10 then [digit_char n] else toString (n div 10) @ [digit_char (n mod 10)])"
  by pat_completeness auto
termination
  by (relation "measure (\<lambda>n. n)") auto

declare toString.simps [simp del]

text \<open>\<^verbatim>\<open>s.slice(a, b)\<close> for indices that are not negative (\<open>slice\<close> is an operation on words in the library, hence the suffix).\<close>

definition slice_str :: "string \<Rightarrow> nat \<Rightarrow> nat \<Rightarrow> string" where
  "slice_str s a b = take (b - a) (drop a s)"

section \<open>The state of the application component\<close>

text \<open>
  The state that both variants of \<^verbatim>\<open>App\<close> have: the \<^verbatim>\<open>useState\<close> cells
  (\<open>recorderState\<close> to \<open>processingIds\<close>), the \<^verbatim>\<open>useRef\<close> cells, and what the
  handlers do to the platform: the tracks they stopped, the interval timers that are
  running, the tracks whose \<^verbatim>\<open>onended\<close> handler calls \<^verbatim>\<open>stopRecording\<close>, the console
  lines and the alerts.
\<close>

record app =
  recorderState :: RecorderState
  recordings :: "Recording list"
  timer :: nat
  errorMsg :: "string option"
  processingIds :: "string set"
  mediaRecorderRef :: "MediaRecorder option"
  audioContextRef :: "AudioContextState option"
  mixedStreamRef :: "MixedStream option"
  timerIntervalRef :: "nat option"
  stopped_tracks :: "nat set"
  active_intervals :: "nat set"
  onended_handlers :: "nat set"
  console :: "(string \<times> JsError) list"
  alerts :: "string list"

text \<open>The first variant (\<^verbatim>\<open>unnamed/part_001\<close>) adds the microphone toggle and the list of acquired streams.\<close>

record app_A = app +
  includeMic :: bool
  activeStreams :: "MediaStream list"

text \<open>The second variant (\<^verbatim>\<open>unnamed/part_002\<close>) adds the reference to the display stream.\<close>

record app_B = app +
  systemStreamRef :: "MediaStream option"

definition init_app :: "'a \<Rightarrow> 'a app_scheme" where
  "init_app ext =
     \<lparr>recorderState = IDLE, recordings = [], timer = 0, errorMsg = None, processingIds = {},
      mediaRecorderRef = None, audioContextRef = None, mixedStreamRef = None,
      timerIntervalRef = None, stopped_tracks = {}, active_intervals = {},
      onended_handlers = {}, console = [], alerts = [], \<dots> = ext\<rparr>"

definition init_A :: app_A where
  "init_A = init_app \<lparr>includeMic = True, activeStreams = []\<rparr>"

definition init_B :: app_B where
  "init_B = init_app \<lparr>systemStreamRef = None\<rparr>"

text \<open>\<^verbatim>\<open>stream.getTracks().forEach(track => track.stop())\<close>.\<close>

definition stop_tracks :: "MediaStream \<Rightarrow> 'a app_scheme \<Rightarrow> 'a app_scheme" where
  "stop_tracks st s = s\<lparr>stopped_tracks := stopped_tracks s \<union> set (map track_id st)\<rparr>"

text \<open>
  \<^verbatim>\<open>if (audioContextRef.current && audioContextRef.current.state !== 'closed')
  audioContextRef.current.close()\<close>.
\<close>

definition close_context :: "'a app_scheme \<Rightarrow> 'a app_scheme" where
  "close_context s =
     (case audioContextRef s of
        None \<Rightarrow> s
      | Some st \<Rightarrow> if st \<noteq> closed then s\<lparr>audioContextRef := Some closed\<rparr> else s)"

text \<open>
  \<^verbatim>\<open>if (timerIntervalRef.current) clearInterval(timerIntervalRef.current)\<close>: a handle
  that is \<open>0\<close> is falsy.
\<close>

definition clear_timer :: "'a app_scheme \<Rightarrow> 'a app_scheme" where
  "clear_timer s =
     (case timerIntervalRef s of
        None \<Rightarrow> s
      | Some h \<Rightarrow> if h \<noteq> 0 then s\<lparr>active_intervals := active_intervals s - {h}\<rparr> else s)"

section \<open>What the handlers meet outside themselves\<close>

text \<open>
  One call of \<^verbatim>\<open>startRecording\<close>: the tracks of the stream of the new mixing
  destination, whether \<^verbatim>\<open>navigator.mediaDevices.getDisplayMedia\<close> exists (the second
  variant asks), how \<^verbatim>\<open>getDisplayMedia\<close> and \<^verbatim>\<open>getUserMedia\<close> settle (\<open>Inl\<close> is a
  rejection), \<^verbatim>\<open>MediaRecorder.isTypeSupported\<close>, and the handle that
  \<^verbatim>\<open>window.setInterval\<close> returns. The constructors of \<^verbatim>\<open>AudioContext\<close> and
  \<^verbatim>\<open>MediaRecorder\<close>, \<^verbatim>\<open>connect\<close> and \<^verbatim>\<open>recorder.start\<close> are taken to return
  normally. The call is one step of the model: what it writes between its two
  \<^verbatim>\<open>await\<close>s does not depend on the cells another handler could write meanwhile.
\<close>

record start_env =
  destination_tracks :: MediaStream
  mediaDevices_supported :: bool
  getDisplayMedia_result :: "JsError + MediaStream"
  getUserMedia_result :: "JsError + MediaStream"
  isTypeSupported :: "string \<Rightarrow> bool"
  setInterval_result :: nat

text \<open>
  One run of \<^verbatim>\<open>recorder.onstop\<close>: the two readings of \<^verbatim>\<open>Date.now()\<close>, the readings
  \<^verbatim>\<open>new Date().toISOString()\<close>, \<^verbatim>\<open>getHours()\<close>, \<^verbatim>\<open>getMinutes()\<close> and
  \<^verbatim>\<open>toLocaleString()\<close>, and the result of \<^verbatim>\<open>URL.createObjectURL\<close>.
\<close>

record stop_env =
  Date_now_id :: nat
  Date_now_timestamp :: nat
  toISOString :: string
  getHours :: nat
  getMinutes :: nat
  toLocaleString :: string
  createObjectURL :: string

text \<open>
  Indexing \<^verbatim>\<open>getVideoTracks()[0]\<close> of a stream without a video track gives
  \<^verbatim>\<open>undefined\<close>, and the assignment to its \<^verbatim>\<open>onended\<close> throws this error.
\<close>

definition onended_of_undefined :: JsError where
  "onended_of_undefined =
     \<lparr>ename = ''TypeError'',
      emessage = ''Cannot set properties of undefined (setting 'onended')''\<rparr>"

text \<open>\<^verbatim>\<open>err.message || "Failed to start recording"\<close>.\<close>

definition message_or_default :: "JsError \<Rightarrow> string" where
  "message_or_default err =
     (if emessage err = '''' then ''Failed to start recording'' else emessage err)"

text \<open>
  The end of \<^verbatim>\<open>startRecording\<close>, from the assignment of the two references on:
  the recorder is made on the mixed stream with the chosen type and started, the state
  becomes \<open>RECORDING\<close>, the counter is reset and the interval timer set.
  \<open>timer_binding\<close> is the \<^verbatim>\<open>timer\<close> that the new \<^verbatim>\<open>onstop\<close> closes over.
\<close>

definition start_recorder ::
  "start_env \<Rightarrow> MixedStream \<Rightarrow> string \<Rightarrow> nat \<Rightarrow> 'a app_scheme \<Rightarrow> 'a app_scheme" where
  "start_recorder env mixed ty timer_binding s =
     (let recorder = \<lparr>stream = mixed, mimeType = ty, rstate = recording, stop_queued = False,
                       chunks = [], timer_closure = timer_binding, mimeType_closure = ty\<rparr>;
          h = setInterval_result env
      in s\<lparr>audioContextRef := Some running, mixedStreamRef := Some mixed,
            mediaRecorderRef := Some recorder, recorderState := RECORDING, timer := 0,
            timerIntervalRef := Some h, active_intervals := insert h (active_intervals s)\<rparr>)"

text \<open>\<^verbatim>\<open>recorder.ondataavailable\<close>: a chunk that is not empty is pushed.\<close>

definition ondataavailable :: "Blob \<Rightarrow> 'a app_scheme \<Rightarrow> 'a app_scheme" where
  "ondataavailable data s =
     (case mediaRecorderRef s of
        None \<Rightarrow> s
      | Some r \<Rightarrow>
          if bsize data > 0 then s\<lparr>mediaRecorderRef := Some (r\<lparr>chunks := chunks r @ [data]\<rparr>)\<rparr>
          else s)"

text \<open>
  \<^verbatim>\<open>mediaRecorderRef.current.stop()\<close> when there is a recorder that is not inactive:
  the recorder becomes inactive and the platform owes its \<^verbatim>\<open>stop\<close> event.
\<close>

definition stop_recorder :: "'a app_scheme \<Rightarrow> 'a app_scheme" where
  "stop_recorder s =
     (case mediaRecorderRef s of
        None \<Rightarrow> s
      | Some r \<Rightarrow>
          if rstate r \<noteq> inactive
          then s\<lparr>mediaRecorderRef := Some (r\<lparr>rstate := inactive, stop_queued := True\<rparr>)\<rparr>
          else s)"

text \<open>\<^verbatim>\<open>handleDelete\<close>, the same in both variants.\<close>

definition handleDelete :: "string \<Rightarrow> 'a app_scheme \<Rightarrow> 'a app_scheme" where
  "handleDelete i s = s\<lparr>recordings := filter (\<lambda>r. id_rec r \<noteq> i) (recordings s)\<rparr>"

text \<open>
  \<^verbatim>\<open>handleAnalyze\<close>, the same in both variants but for the text of the alert. Up to
  the \<^verbatim>\<open>await\<close>: the recording is looked up and the identifier marked.
\<close>

definition handleAnalyze_begin :: "string \<Rightarrow> 'a app_scheme \<Rightarrow> (Blob \<times> 'a app_scheme) option" where
  "handleAnalyze_begin i s =
     (case find (\<lambda>r. id_rec r = i) (recordings s) of
        None \<Rightarrow> None
      | Some recording' \<Rightarrow> Some (blob recording', s\<lparr>processingIds := insert i (processingIds s)\<rparr>))"

text \<open>
  After the \<^verbatim>\<open>await\<close>: the result is stored in every entry with the identifier, or the
  alert is shown; the \<^verbatim>\<open>finally\<close> removes the mark. The updates are functional
  (\<^verbatim>\<open>prev => ...\<close>), so they act on the state at this moment.
\<close>

definition handleAnalyze_settle ::
  "string \<Rightarrow> string \<Rightarrow> JsError + string \<times> string \<Rightarrow> 'a app_scheme \<Rightarrow> 'a app_scheme" where
  "handleAnalyze_settle alert_text i outcome s =
     (let s' = (case outcome of
                  Inr (transcription', summary') \<Rightarrow>
                    s\<lparr>recordings :=
                        map (\<lambda>r. if id_rec r = i
                                 then r\<lparr>transcription := Some transcription', summary := Some summary'\<rparr>
                                 else r) (recordings s)\<rparr>
                | Inl e \<Rightarrow> s\<lparr>alerts := alerts s @ [alert_text]\<rparr>)
      in s'\<lparr>processingIds := processingIds s' - {i}\<rparr>)"

text \<open>The whole handler, with nothing else running during the \<^verbatim>\<open>await\<close>.\<close>

definition handleAnalyze :: "string \<Rightarrow> genai_env \<Rightarrow> string \<Rightarrow> 'a app_scheme \<Rightarrow> 'a app_scheme" where
  "handleAnalyze alert_text genv i s =
     (case handleAnalyze_begin i s of
        None \<Rightarrow> s
      | Some (audio, s1) \<Rightarrow> handleAnalyze_settle alert_text i (snd (analyzeAudio genv audio)) s1)"

definition alert_A :: string where
  "alert_A = ''AI analysis failed. Check your connection or API Key.''"

definition alert_B :: string where
  "alert_B = ''Failed to analyze audio. Please check your API Key.''"

section \<open>The first variant (\<^verbatim>\<open>unnamed/part_001\<close>)\<close>

definition cleanup :: "app_A \<Rightarrow> app_A" where
  "cleanup s =
     (let s1 = s\<lparr>stopped_tracks := stopped_tracks s \<union> set (map track_id (concat (activeStreams s))),
                 activeStreams := []\<rparr>
      in clear_timer (close_context s1))"

definition no_audio_A :: string where
  "no_audio_A = ''Please check 'Share Audio' in the browser popup to record Teams audio.''"

text \<open>The outer \<^verbatim>\<open>catch\<close> of \<^verbatim>\<open>startRecording\<close>.\<close>

definition start_failed_A :: "JsError \<Rightarrow> app_A \<Rightarrow> app_A" where
  "start_failed_A err s =
     cleanup (s\<lparr>errorMsg := Some (message_or_default err), recorderState := IDLE\<rparr>)"

definition supportedTypes :: "string list" where
  "supportedTypes = [''audio/mp4'', ''video/mp4;codecs=avc1'', ''audio/webm;codecs=opus'']"

definition choose_mimeType_A :: "start_env \<Rightarrow> string" where
  "choose_mimeType_A env =
     (case find (isTypeSupported env) supportedTypes of Some ty \<Rightarrow> ty | None \<Rightarrow> ''audio/webm'')"

text \<open>
  Step 2 of \<^verbatim>\<open>startRecording\<close>: the microphone, when the toggle of the render asks
  for it. A rejection is logged and nothing else. The result is the state and the
  microphone stream, if one was connected.
\<close>

definition capture_microphone :: "start_env \<Rightarrow> bool \<Rightarrow> app_A \<Rightarrow> app_A \<times> MediaStream list" where
  "capture_microphone env includeMic_binding s =
     (if includeMic_binding then
        (case getUserMedia_result env of
           Inr micStream \<Rightarrow> (s\<lparr>activeStreams := activeStreams s @ [micStream]\<rparr>, [micStream])
         | Inl e \<Rightarrow> (s\<lparr>console := console s @ [(''Microphone access denied'', e)]\<rparr>, []))
      else (s, []))"

text \<open>
  The inner \<^verbatim>\<open>catch\<close> of \<^verbatim>\<open>startRecording\<close>: it sees every error thrown in step 1,
  also the two that the step throws itself.
\<close>

definition inner_catch_A :: "JsError \<Rightarrow> app_A \<Rightarrow> app_A" where
  "inner_catch_A e s =
     (if ename e = ''NotAllowedError'' then s\<lparr>recorderState := IDLE\<rparr>
      else start_failed_A e s)"

definition startRecording_A :: "start_env \<Rightarrow> app_A \<Rightarrow> app_A" where
  "startRecording_A env s =
     (let timer_binding = timer s;
          includeMic_binding = includeMic s;
          s1 = cleanup (s\<lparr>errorMsg := None, recorderState := PREPARING\<rparr>)
      in case getDisplayMedia_result env of
           Inl e \<Rightarrow> inner_catch_A e s1
         | Inr systemStream \<Rightarrow>
             if length (getAudioTracks systemStream) = 0
             then inner_catch_A (Error no_audio_A) (stop_tracks systemStream s1)
             else
               (let s2 = s1\<lparr>activeStreams := activeStreams s1 @ [systemStream]\<rparr>
                in case getVideoTracks systemStream of
                     [] \<Rightarrow> inner_catch_A onended_of_undefined s2
                   | v # _ \<Rightarrow>
                       (let s3 = s2\<lparr>onended_handlers := insert (track_id v) (onended_handlers s2)\<rparr>;
                            (s4, mic) = capture_microphone env includeMic_binding s3;
                            mixed = \<lparr>mixed_tracks = destination_tracks env,
                                     mixed_sources = systemStream # mic\<rparr>
                        in start_recorder env mixed (choose_mimeType_A env) timer_binding s4)))"

definition stopRecording_A :: "app_A \<Rightarrow> app_A" where
  "stopRecording_A s = stop_recorder s"

text \<open>
  \<^verbatim>\<open>recorder.onstop\<close> of the first variant, for the recorder \<open>r\<close> it was set on.
\<close>

definition extension_of :: "string \<Rightarrow> string" where
  "extension_of finalType = (if includes_str finalType ''mp4'' then ''mp4'' else ''webm'')"

definition finalType_of :: "string \<Rightarrow> string" where
  "finalType_of recorder_mimeType =
     (if includes_str recorder_mimeType ''mp4'' then ''video/mp4'' else ''audio/webm'')"

definition newRecording_A :: "stop_env \<Rightarrow> MediaRecorder \<Rightarrow> Recording" where
  "newRecording_A senv r =
     (let finalType = finalType_of (mimeType r);
          blob' = new_Blob (chunks r) finalType;
          extension = extension_of finalType
      in \<lparr>id_rec = toString (Date_now_id senv),
          blob = blob',
          url = createObjectURL senv,
          timestamp = Date_now_timestamp senv,
          duration = timer_closure r,
          name = ''Meeting_'' @ slice_str (toISOString senv) 0 10 @ ''_''
                 @ toString (getHours senv) @ toString (getMinutes senv) @ ''.'' @ extension,
          transcription = None,
          summary = None\<rparr>)"

definition onstop_A :: "stop_env \<Rightarrow> MediaRecorder \<Rightarrow> app_A \<Rightarrow> app_A" where
  "onstop_A senv r s =
     cleanup (s\<lparr>recordings := newRecording_A senv r # recordings s,
                recorderState := IDLE, timer := 0\<rparr>)"

section \<open>The second variant (\<^verbatim>\<open>unnamed/part_002\<close>)\<close>

definition stopStreams :: "app_B \<Rightarrow> app_B" where
  "stopStreams s =
     (let s1 = (case systemStreamRef s of None \<Rightarrow> s | Some st \<Rightarrow> stop_tracks st s);
          s2 = (case mixedStreamRef s1 of None \<Rightarrow> s1 | Some m \<Rightarrow> stop_tracks (mixed_tracks m) s1)
      in close_context s2)"

definition unsupported_B :: string where
  "unsupported_B = ''Your browser does not support screen audio recording. Please use Chrome, Edge, or Firefox.''"

definition no_audio_B :: string where
  "no_audio_B = ''No system audio detected. To record Teams Desktop, you MUST select 'Entire Screen' tab and check 'Share system audio'.''"

definition blocked_B :: string where
  "blocked_B = ''Browser Permission Blocked: This preview window does not allow screen recording. Please open this app in a new full browser tab/window to use it.''"

text \<open>The outer \<^verbatim>\<open>catch\<close> of \<^verbatim>\<open>startRecording\<close>.\<close>

definition start_failed_B :: "JsError \<Rightarrow> app_B \<Rightarrow> app_B" where
  "start_failed_B err s =
     stopStreams (s\<lparr>console := console s @ [('''', err)],
                    errorMsg := Some (message_or_default err), recorderState := IDLE\<rparr>)"

text \<open>
  The inner \<^verbatim>\<open>catch\<close>. \<^verbatim>\<open>e.message && e.message.includes(...)\<close> is false for the
  empty message.
\<close>

definition inner_catch_B :: "JsError \<Rightarrow> app_B \<Rightarrow> app_B" where
  "inner_catch_B e s =
     (let s' = s\<lparr>console := console s @ [(''System audio selection cancelled or failed'', e)]\<rparr>
      in if ename e = ''NotAllowedError'' \<or> ename e = ''AbortError''
         then s'\<lparr>recorderState := IDLE\<rparr>
         else if emessage e \<noteq> '''' \<and> includes_str (emessage e) ''permissions policy''
         then start_failed_B (Error blocked_B) s'
         else if emessage e \<noteq> '''' \<and> includes_str (emessage e) ''No system audio''
         then start_failed_B e s'
         else start_failed_B (Error (''Could not start System Audio capture: '' @ emessage e)) s')"

definition choose_mimeType_B :: "start_env \<Rightarrow> string" where
  "choose_mimeType_B env =
     (if isTypeSupported env ''audio/webm;codecs=opus'' then ''audio/webm;codecs=opus''
      else ''audio/webm'')"

definition startRecording_B :: "start_env \<Rightarrow> app_B \<Rightarrow> app_B" where
  "startRecording_B env s =
     (let timer_binding = timer s;
          s1 = s\<lparr>errorMsg := None, recorderState := PREPARING\<rparr>
      in if \<not> mediaDevices_supported env then start_failed_B (Error unsupported_B) s1
         else
           case getDisplayMedia_result env of
             Inl e \<Rightarrow> inner_catch_B e s1
           | Inr sysStream \<Rightarrow>
               if length (getAudioTracks sysStream) > 0
               then
                 (let s2 = s1\<lparr>systemStreamRef := Some sysStream\<rparr>
                  in case getVideoTracks sysStream of
                       [] \<Rightarrow> inner_catch_B onended_of_undefined s2
                     | v # _ \<Rightarrow>
                         (let s3 = s2\<lparr>onended_handlers := insert (track_id v) (onended_handlers s2)\<rparr>;
                              mixed = \<lparr>mixed_tracks = destination_tracks env,
                                       mixed_sources = [sysStream]\<rparr>
                          in start_recorder env mixed (choose_mimeType_B env) timer_binding s3))
               else inner_catch_B (Error no_audio_B) (stop_tracks sysStream s1))"

definition stopRecording_B :: "app_B \<Rightarrow> app_B" where
  "stopRecording_B s = clear_timer (stop_recorder s)"

definition newRecording_B :: "stop_env \<Rightarrow> MediaRecorder \<Rightarrow> Recording" where
  "newRecording_B senv r =
     \<lparr>id_rec = toString (Date_now_id senv),
      blob = new_Blob (chunks r) (mimeType_closure r),
      url = createObjectURL senv,
      timestamp = Date_now_timestamp senv,
      duration = timer_closure r,
      name = ''Meeting '' @ toLocaleString senv,
      transcription = None,
      summary = None\<rparr>"

definition onstop_B :: "stop_env \<Rightarrow> MediaRecorder \<Rightarrow> app_B \<Rightarrow> app_B" where
  "onstop_B senv r s =
     stopStreams (s\<lparr>recordings := newRecording_B senv r # recordings s,
                    recorderState := IDLE, timer := 0\<rparr>)"

section \<open>Events\<close>

text \<open>
  What can happen to the component: a click on one of its buttons (the buttons exist
  or are enabled as the markup says), and what the platform delivers: the end of a
  track, a chunk of the recorder (while it records, or between \<^verbatim>\<open>stop()\<close> and the
  \<^verbatim>\<open>stop\<close> event), the \<^verbatim>\<open>stop\<close> event that a \<^verbatim>\<open>stop()\<close> call is owed, and a
  tick of an interval timer that has not been cleared.
\<close>

datatype event =
    ClickStart start_env
  | ClickStop
  | TrackEnded nat
  | DataAvailable Blob
  | RecorderStop stop_env
  | IntervalTick nat
  | ClickDelete string
  | ClickAnalyze genai_env string
  | ToggleMic bool

text \<open>\<^verbatim>\<open>!x\<close> for an optional string: undefined or empty.\<close>

definition falsy :: "string option \<Rightarrow> bool" where
  "falsy x = (case x of None \<Rightarrow> True | Some t \<Rightarrow> t = '''')"

definition deliver_chunk :: "Blob \<Rightarrow> 'a app_scheme \<Rightarrow> 'a app_scheme" where
  "deliver_chunk data s =
     (case mediaRecorderRef s of
        None \<Rightarrow> s
      | Some r \<Rightarrow> if rstate r = recording \<or> stop_queued r then ondataavailable data s else s)"

definition tick :: "nat \<Rightarrow> 'a app_scheme \<Rightarrow> 'a app_scheme" where
  "tick h s = (if h \<in> active_intervals s then s\<lparr>timer := timer s + 1\<rparr> else s)"

fun step_A :: "event \<Rightarrow> app_A \<Rightarrow> app_A" where
  "step_A (ClickStart env) s =
     (if recorderState s \<noteq> RECORDING \<and> recorderState s \<noteq> PREPARING
      then startRecording_A env s else s)"
| "step_A ClickStop s = (if recorderState s = RECORDING then stopRecording_A s else s)"
| "step_A (TrackEnded t) s = (if t \<in> onended_handlers s then stopRecording_A s else s)"
| "step_A (DataAvailable data) s = deliver_chunk data s"
| "step_A (RecorderStop senv) s =
     (case mediaRecorderRef s of
        None \<Rightarrow> s
      | Some r \<Rightarrow>
          if stop_queued r
          then onstop_A senv r (s\<lparr>mediaRecorderRef := Some (r\<lparr>stop_queued := False\<rparr>)\<rparr>)
          else s)"
| "step_A (IntervalTick h) s = tick h s"
| "step_A (ClickDelete i) s = handleDelete i s"
| "step_A (ClickAnalyze genv i) s =
     (if (\<exists>r \<in> set (recordings s). id_rec r = i \<and> falsy (transcription r)) \<and> i \<notin> processingIds s
      then handleAnalyze alert_A genv i s else s)"
| "step_A (ToggleMic b) s = (if recorderState s = IDLE then s\<lparr>includeMic := b\<rparr> else s)"

fun step_B :: "event \<Rightarrow> app_B \<Rightarrow> app_B" where
  "step_B (ClickStart env) s =
     (if recorderState s = IDLE then startRecording_B env s else s)"
| "step_B ClickStop s =
     (if recorderState s \<noteq> IDLE \<and> recorderState s \<noteq> PREPARING then stopRecording_B s else s)"
| "step_B (TrackEnded t) s = (if t \<in> onended_handlers s then stopRecording_B s else s)"
| "step_B (DataAvailable data) s = deliver_chunk data s"
| "step_B (RecorderStop senv) s =
     (case mediaRecorderRef s of
        None \<Rightarrow> s
      | Some r \<Rightarrow>
          if stop_queued r
          then onstop_B senv r (s\<lparr>mediaRecorderRef := Some (r\<lparr>stop_queued := False\<rparr>)\<rparr>)
          else s)"
| "step_B (IntervalTick h) s = tick h s"
| "step_B (ClickDelete i) s = handleDelete i s"
| "step_B (ClickAnalyze genv i) s =
     (if (\<exists>r \<in> set (recordings s). id_rec r = i \<and> falsy (transcription r) \<and> falsy (summary r))
         \<and> i \<notin> processingIds s
      then handleAnalyze alert_B genv i s else s)"
| "step_B (ToggleMic b) s = s"

text \<open>A sequence of events, from the left.\<close>

definition run_A :: "event list \<Rightarrow> app_A \<Rightarrow> app_A" where
  "run_A es s = foldl (\<lambda>st e. step_A e st) s es"

definition run_B :: "event list \<Rightarrow> app_B \<Rightarrow> app_B" where
  "run_B es s = foldl (\<lambda>st e. step_B e st) s es"

section \<open>Concrete inputs\<close>

text \<open>An effect that encodes the payload or calls the network.\<close>

fun encodes_or_calls :: "effect \<Rightarrow> bool" where
  "encodes_or_calls (ReadBlob b) = True"
| "encodes_or_calls (GenerateContent model ty data) = True"
| "encodes_or_calls (CreateClient k) = False"
| "encodes_or_calls (ConsoleError label e) = False"

definition nl :: string where
  "nl = [CHR 0x0A]"

definition blob_ok :: Blob where
  "blob_ok = \<lparr>bytes = [1, 2, 3], btype = ''audio/webm''\<rparr>"

text \<open>A service that answers with the given text, and one without a credential.\<close>

definition genv_ok :: "string \<Rightarrow> genai_env" where
  "genv_ok text =
     \<lparr>API_KEY = Some ''k'', blobToBase64_result = Inr ''AQID'',
      generateContent_result = Inr (Some text)\<rparr>"

definition genv_nokey :: "string option \<Rightarrow> genai_env" where
  "genv_nokey k =
     \<lparr>API_KEY = k, blobToBase64_result = Inr ''AQID'',
      generateContent_result = Inr (Some ''## Summary'')\<rparr>"

definition response_ok :: string where
  "response_ok =
     ''## Transcription'' @ nl @ ''Speaker 1: hello'' @ nl @ nl
     @ ''## Summary'' @ nl @ ''- greeting'' @ nl"

text \<open>A stored recording with the given identifier, and a state that holds three.\<close>

definition recording_ok :: "string \<Rightarrow> Recording" where
  "recording_ok i =
     \<lparr>id_rec = i, blob = blob_ok, url = ''blob:'' @ i, timestamp = 0, duration = 0,
      name = ''Meeting'', transcription = None, summary = None\<rparr>"

definition state3 :: app_A where
  "state3 = init_A\<lparr>recordings := [recording_ok ''3'', recording_ok ''2'', recording_ok ''1'']\<rparr>"

text \<open>
  A display stream with a video and an audio track, one with the video track only, a
  rejection as the platform gives it when the permission is denied, and a platform
  that answers \<^verbatim>\<open>getDisplayMedia\<close> as given, denies the microphone and records
  \<^verbatim>\<open>audio/webm;codecs=opus\<close>.
\<close>

definition sys_ok :: MediaStream where
  "sys_ok = [\<lparr>track_id = 1, kind = Video\<rparr>, \<lparr>track_id = 2, kind = Audio\<rparr>]"

definition sys_silent :: MediaStream where
  "sys_silent = [\<lparr>track_id = 1, kind = Video\<rparr>]"

definition denied :: JsError where
  "denied = \<lparr>ename = ''NotAllowedError'', emessage = ''Permission denied''\<rparr>"

definition env_of :: "JsError + MediaStream \<Rightarrow> start_env" where
  "env_of display =
     \<lparr>destination_tracks = [\<lparr>track_id = 3, kind = Audio\<rparr>],
      mediaDevices_supported = True,
      getDisplayMedia_result = display,
      getUserMedia_result = Inl denied,
      isTypeSupported = (\<lambda>ty. ty = ''audio/webm;codecs=opus''),
      setInterval_result = 7\<rparr>"

definition senv_ok :: stop_env where
  "senv_ok =
     \<lparr>Date_now_id = 1793627640123, Date_now_timestamp = 1793627640123,
      toISOString = ''2026-11-02T13:54:00.123Z'', getHours = 13, getMinutes = 54,
      toLocaleString = ''11/2/2026, 1:54:00 PM'', createObjectURL = ''blob:1''\<rparr>"

section \<open>Notions used to state the properties of a capture session\<close>

text \<open>
  The events between the start and the stop of a session: ticks of the timer and
  chunks of the recorder. \<open>delivered\<close> is the list of the chunks among them that are
  not empty.
\<close>

fun session_event :: "event \<Rightarrow> bool" where
  "session_event (IntervalTick h) = True"
| "session_event (DataAvailable d) = True"
| "session_event e = False"

fun delivered :: "event list \<Rightarrow> Blob list" where
  "delivered [] = []"
| "delivered (DataAvailable d # es) = (if bsize d > 0 then d # delivered es else delivered es)"
| "delivered (e # es) = delivered es"

text \<open>The microphone stream that the first variant connects, if any.\<close>

definition microphone_of :: "start_env \<Rightarrow> bool \<Rightarrow> MediaStream list" where
  "microphone_of env wanted =
     (if wanted then (case getUserMedia_result env of Inr m \<Rightarrow> [m] | Inl e \<Rightarrow> []) else [])"

text \<open>The recorder that \<open>start_recorder\<close> makes on the mix of the given sources.\<close>

definition recorder_of :: "MediaStream list \<Rightarrow> start_env \<Rightarrow> string \<Rightarrow> nat \<Rightarrow> MediaRecorder" where
  "recorder_of sources env ty timer_binding =
     \<lparr>stream = \<lparr>mixed_tracks = destination_tracks env, mixed_sources = sources\<rparr>,
      mimeType = ty, rstate = recording, stop_queued = False, chunks = [],
      timer_closure = timer_binding, mimeType_closure = ty\<rparr>"


text \<open>
  The form of the display name in the words of the specification:
  \<open>Meeting_<date>_<hour><minute>.<extension>\<close> with the extension \<open>mp4\<close> or \<open>webm\<close>.
\<close>

definition spec_name_form :: "string \<Rightarrow> bool" where
  "spec_name_form n =
     (\<exists>date hm ext. n = ''Meeting_'' @ date @ ''_'' @ hm @ ''.'' @ ext
        \<and> (ext = ''mp4'' \<or> ext = ''webm''))"

text \<open>
  What holds of the recorder in every state that the component reaches: a recorder
  whose \<^verbatim>\<open>stop\<close> event is owed is inactive, and no chunk it has collected is empty.
\<close>

definition recorder_inv :: "'a app_scheme \<Rightarrow> bool" where
  "recorder_inv s =
     (case mediaRecorderRef s of
        None \<Rightarrow> True
      | Some r \<Rightarrow> (stop_queued r \<longrightarrow> rstate r = inactive) \<and> list_all (\<lambda>c. 0 < bsize c) (chunks r))"

definition blob_empty :: Blob where
  "blob_empty = \<lparr>bytes = [], btype = ''audio/webm''\<rparr>"

text \<open>
  The state of either variant after a granted start, one chunk and the click on the
  stop button, when the \<^verbatim>\<open>stop\<close> event is still owed.
\<close>

definition before_stop_A :: app_A where
  "before_stop_A = run_A [ClickStart (env_of (Inr sys_ok)), DataAvailable blob_ok, ClickStop] init_A"

definition before_stop_B :: app_B where
  "before_stop_B = run_B [ClickStart (env_of (Inr sys_ok)), DataAvailable blob_ok, ClickStop] init_B"

text \<open>
  The \<^verbatim>\<open>stop\<close> event of the recorder. A session lasts from the click on the start
  button to the first of them.
\<close>

fun stop_event :: "event \<Rightarrow> bool" where
  "stop_event (RecorderStop senv) = True"
| "stop_event e = False"

text \<open>
  The events of a session that holds an empty chunk, a tick, a chunk with bytes and
  the click on the stop button.
\<close>

definition session_ok :: "event list" where
  "session_ok = [DataAvailable blob_empty, IntervalTick 7, DataAvailable blob_ok, ClickStop]"

text \<open>
  While a session lasts the state is \<open>RECORDING\<close> and the recorder either records
  or is inactive with its \<^verbatim>\<open>stop\<close> event owed.
\<close>

definition in_session :: "'a app_scheme \<Rightarrow> MediaRecorder \<Rightarrow> bool" where
  "in_session s r =
     (mediaRecorderRef s = Some r \<and> recorderState s = RECORDING
      \<and> (rstate r = recording \<and> \<not> stop_queued r \<or> rstate r = inactive \<and> stop_queued r))"

section \<open>Facts about the string operations\<close>

lemma startsWith_iff: "startsWith s m \<longleftrightarrow> (\<exists>t. s = m @ t)"
  by (induction s m rule: startsWith.induct) auto

lemma startsWith_Nil: "startsWith [] m \<longleftrightarrow> m = []"
  by (cases m) auto

lemma indexOf_from_none:
  "(\<forall>j \<le> length s. \<not> startsWith (drop j s) m) \<Longrightarrow> indexOf_from s m k = - 1"
proof (induction s arbitrary: k)
  case Nil
  then show ?case by (simp add: startsWith_Nil)
next
  case (Cons c cs)
  from Cons.prems have "\<not> startsWith (drop 0 (c # cs)) m" by blast
  then have no: "\<not> startsWith (c # cs) m" by simp
  have "\<forall>j \<le> length cs. \<not> startsWith (drop j cs) m"
  proof (intro allI impI)
    fix j assume "j \<le> length cs"
    then have "Suc j \<le> length (c # cs)" by simp
    with Cons.prems have "\<not> startsWith (drop (Suc j) (c # cs)) m" by blast
    then show "\<not> startsWith (drop j cs) m" by simp
  qed
  then have "indexOf_from cs m (Suc k) = - 1" by (rule Cons.IH)
  with no show ?case by simp
qed

lemma indexOf_from_found:
  "j \<le> length s \<Longrightarrow> startsWith (drop j s) m \<Longrightarrow> (\<forall>i < j. \<not> startsWith (drop i s) m) \<Longrightarrow>
   indexOf_from s m k = int (k + j)"
proof (induction s arbitrary: k j)
  case Nil
  then show ?case by (simp add: startsWith_Nil)
next
  case (Cons c cs)
  show ?case
  proof (cases j)
    case 0
    with Cons.prems show ?thesis by simp
  next
    case (Suc j')
    with Cons.prems have no: "\<not> startsWith (c # cs) m" by fastforce
    have le: "j' \<le> length cs" using Cons.prems Suc by simp
    have at: "startsWith (drop j' cs) m" using Cons.prems Suc by simp
    have before: "\<forall>i < j'. \<not> startsWith (drop i cs) m"
    proof (intro allI impI)
      fix i assume "i < j'"
      then have "Suc i < j" using Suc by simp
      with Cons.prems have "\<not> startsWith (drop (Suc i) (c # cs)) m" by blast
      then show "\<not> startsWith (drop i cs) m" by simp
    qed
    have "indexOf_from cs m (Suc k) = int (Suc k + j')"
      using le at before by (rule Cons.IH)
    with no Suc show ?thesis by simp
  qed
qed

text \<open>\<open>indexOf\<close> is the position of the first occurrence.\<close>

lemma indexOf_first:
  assumes "s = pre @ m @ post" and "\<forall>j < length pre. \<not> startsWith (drop j s) m"
  shows "indexOf s m = int (length pre)"
proof -
  have "startsWith (drop (length pre) s) m"
    using assms(1) by (simp add: startsWith_iff)
  moreover have "length pre \<le> length s" using assms(1) by simp
  ultimately have "indexOf_from s m 0 = int (0 + length pre)"
    using assms(2) by (intro indexOf_from_found) auto
  then show ?thesis by (simp add: indexOf_def)
qed

lemma indexOf_absent:
  assumes "\<forall>pre post. s \<noteq> pre @ m @ post"
  shows "indexOf s m = - 1"
proof -
  have "\<forall>j \<le> length s. \<not> startsWith (drop j s) m"
  proof (intro allI impI notI)
    fix j assume "j \<le> length s" and "startsWith (drop j s) m"
    then obtain t where "drop j s = m @ t" by (auto simp: startsWith_iff)
    then have "s = take j s @ m @ t" by (metis append_take_drop_id)
    with assms show False by blast
  qed
  then show ?thesis by (simp add: indexOf_def indexOf_from_none)
qed

lemma indexOf_le:
  assumes "j \<le> length s" and "startsWith (drop j s) m"
  shows "0 \<le> indexOf s m \<and> indexOf s m \<le> int j"
proof -
  define j0 where "j0 = (LEAST i. startsWith (drop i s) m)"
  have at: "startsWith (drop j0 s) m"
    unfolding j0_def using assms(2) by (rule LeastI)
  have le: "j0 \<le> j"
    unfolding j0_def using assms(2) by (rule Least_le)
  have before: "\<forall>i < j0. \<not> startsWith (drop i s) m"
    unfolding j0_def using not_less_Least by blast
  have "indexOf_from s m 0 = int (0 + j0)"
    using le assms(1) at before by (intro indexOf_from_found) auto
  with le show ?thesis by (simp add: indexOf_def)
qed

lemma indexOf_no_earlier:
  assumes "indexOf s m = int n"
  shows "\<forall>j < n. \<not> startsWith (drop j s) m"
proof (intro allI impI notI)
  fix j assume j: "j < n" and at: "startsWith (drop j s) m"
  show False
  proof (cases "j \<le> length s")
    case True
    from indexOf_le [OF True at] assms j show False by simp
  next
    case False
    with at have "m = []" by (simp add: startsWith_Nil)
    then have "startsWith (drop 0 s) m" by simp
    from indexOf_le [OF _ this] assms j show False by simp
  qed
qed

lemma indexOf_head: "indexOf (m @ post) m = 0"
  using indexOf_first [of "m @ post" "[]" m post] by simp

lemma replace_head: "replace (m @ post) m [] = post"
  by (simp add: replace_def indexOf_head)

text \<open>A pattern that occurs has a first occurrence.\<close>

lemma first_occurrence_exists:
  assumes "s = pre @ m @ post"
  shows "\<exists>pre' post'. s = pre' @ m @ post' \<and> (\<forall>j < length pre'. \<not> startsWith (drop j s) m)"
proof -
  define j0 where "j0 = (LEAST i. startsWith (drop i s) m)"
  have occ: "startsWith (drop (length pre) s) m"
    using assms by (simp add: startsWith_iff)
  have at: "startsWith (drop j0 s) m"
    unfolding j0_def using occ by (rule LeastI)
  have "j0 \<le> length pre"
    unfolding j0_def using occ by (rule Least_le)
  then have le: "j0 \<le> length s" using assms by simp
  have before: "\<forall>i < j0. \<not> startsWith (drop i s) m"
    unfolding j0_def using not_less_Least by blast
  from at obtain t where "drop j0 s = m @ t" by (auto simp: startsWith_iff)
  then have "s = take j0 s @ m @ t" by (metis append_take_drop_id)
  moreover have "length (take j0 s) = j0" using le by simp
  ultimately show ?thesis using before by metis
qed

section \<open>The analysis service\<close>

lemma split_sections_present:
  assumes "text = pre @ ''## Summary'' @ post"
    and "\<forall>j < length pre. \<not> startsWith (drop j text) ''## Summary''"
  shows "split_sections text = (trim (replace pre ''## Transcription'' ''''), trim post)"
proof -
  have i: "indexOf text ''## Summary'' = int (length pre)"
    using assms by (rule indexOf_first)
  have a: "substring text 0 (int (length pre)) = pre"
    using assms(1) by (simp add: substring_def clamp_index_def)
  have b: "substring_from text (int (length pre)) = ''## Summary'' @ post"
    using assms(1) by (simp add: substring_from_def clamp_index_def)
  have c: "replace (''## Summary'' @ post) ''## Summary'' [] = post"
    by (rule replace_head)
  show ?thesis
    unfolding split_sections_def Let_def i a b c by simp
qed

lemma split_sections_absent:
  assumes "\<forall>pre post. text \<noteq> pre @ ''## Summary'' @ post"
  shows "split_sections text = (text, ''Could not generate structured summary.'')"
  using indexOf_absent [OF assms] by (simp add: split_sections_def no_summary_def)

lemma analyzeAudio_result:
  assumes "API_KEY env = Some apiKey" and "apiKey \<noteq> ''''"
    and "blobToBase64_result env = Inr base64Audio"
    and "generateContent_result env = Inr response_text"
  shows "snd (analyzeAudio env audioBlob) =
           Inr (split_sections (case response_text of None \<Rightarrow> '''' | Some t \<Rightarrow> t))"
  using assms by (simp add: analyzeAudio_def Let_def)

text \<open>
  C7. Without a credential (\<^verbatim>\<open>process.env.API_KEY\<close> undefined or the empty string),
  \<open>analyzeAudio\<close> throws the error \<open>API Key is missing. ...\<close> for every payload, and
  the only effect of the call is the console line of its \<^verbatim>\<open>catch\<close>: the payload is
  not read and the network is not called.
\<close>

theorem analyzeAudio_missing_key:
  assumes "API_KEY env = None \<or> API_KEY env = Some ''''"
  shows "analyzeAudio env audioBlob =
           ([ConsoleError ''Error analyzing audio with Gemini:'' (Error api_key_missing)],
            Inl (Error api_key_missing))
         \<and> filter encodes_or_calls (fst (analyzeAudio env audioBlob)) = []
         \<and> startsWith (emessage (Error api_key_missing)) ''API Key is missing''"
proof -
  have a: "analyzeAudio env audioBlob =
           ([ConsoleError ''Error analyzing audio with Gemini:'' (Error api_key_missing)],
            Inl (Error api_key_missing))"
    using assms by (auto simp: analyzeAudio_def)
  have b: "startsWith (emessage (Error api_key_missing)) ''API Key is missing''"
    by (simp add: Error_def api_key_missing_def)
  show ?thesis unfolding a using b by simp
qed

theorem analyzeAudio_missing_key_witness:
  "(API_KEY (genv_nokey None) = None \<or> API_KEY (genv_nokey None) = Some '''')
   \<and> snd (analyzeAudio (genv_nokey None) blob_ok) = Inl (Error api_key_missing)
   \<and> filter encodes_or_calls (fst (analyzeAudio (genv_nokey None) blob_ok)) = []
   \<and> (API_KEY (genv_nokey (Some '''')) = None \<or> API_KEY (genv_nokey (Some '''')) = Some '''')
   \<and> snd (analyzeAudio (genv_nokey (Some '''')) blob_ok) = Inl (Error api_key_missing)
   \<and> filter encodes_or_calls (fst (analyzeAudio (genv_nokey (Some '''')) blob_ok)) = []"
proof -
  have h1: "API_KEY (genv_nokey None) = None \<or> API_KEY (genv_nokey None) = Some ''''"
    by (simp add: genv_nokey_def)
  have h2: "API_KEY (genv_nokey (Some '''')) = None \<or> API_KEY (genv_nokey (Some '''')) = Some ''''"
    by (simp add: genv_nokey_def)
  show ?thesis
    using h1 h2 analyzeAudio_missing_key [OF h1, of blob_ok]
      analyzeAudio_missing_key [OF h2, of blob_ok]
    by simp
qed

text \<open>
  C10. When the service answers, the result of \<open>analyzeAudio\<close> is read off the
  response text (the empty text when the response has none). If the text is
  \<open>pre @ ''## Summary'' @ post\<close> with no earlier occurrence of the marker, the
  transcription is \<open>pre\<close> with its first \<open>## Transcription\<close> removed, trimmed, and the
  summary is \<open>post\<close>, trimmed. If the marker does not occur, the transcription is the
  whole text and the summary the fixed sentence. A text in which the marker occurs has
  such a decomposition, so the two cases cover every text.
\<close>

theorem analyzeAudio_sections:
  assumes "API_KEY env = Some apiKey" and "apiKey \<noteq> ''''"
    and "blobToBase64_result env = Inr base64Audio"
    and "generateContent_result env = Inr response_text"
    and "text = (case response_text of None \<Rightarrow> '''' | Some t \<Rightarrow> t)"
  shows "(\<forall>pre post.
            text = pre @ ''## Summary'' @ post
            \<and> (\<forall>j < length pre. \<not> startsWith (drop j text) ''## Summary'') \<longrightarrow>
            snd (analyzeAudio env audioBlob) =
              Inr (trim (replace pre ''## Transcription'' ''''), trim post))
         \<and> ((\<forall>pre post. text \<noteq> pre @ ''## Summary'' @ post) \<longrightarrow>
            snd (analyzeAudio env audioBlob) =
              Inr (text, ''Could not generate structured summary.''))
         \<and> ((\<exists>pre post. text = pre @ ''## Summary'' @ post) \<longrightarrow>
            (\<exists>pre post. text = pre @ ''## Summary'' @ post
               \<and> (\<forall>j < length pre. \<not> startsWith (drop j text) ''## Summary'')))"
proof -
  have ex: "\<exists>pre post. text = pre @ ''## Summary'' @ post
               \<and> (\<forall>j < length pre. \<not> startsWith (drop j text) ''## Summary'')"
    if "\<exists>pre post. text = pre @ ''## Summary'' @ post"
    using that first_occurrence_exists by blast
  have r: "snd (analyzeAudio env audioBlob) = Inr (split_sections text)"
    using assms by (simp add: analyzeAudio_result)
  have present: "split_sections text = (trim (replace pre ''## Transcription'' ''''), trim post)"
    if "text = pre @ ''## Summary'' @ post
        \<and> (\<forall>j < length pre. \<not> startsWith (drop j text) ''## Summary'')" for pre post
    using that by (intro split_sections_present) blast+
  have absent: "split_sections text = (text, ''Could not generate structured summary.'')"
    if "\<forall>pre post. text \<noteq> pre @ ''## Summary'' @ post"
    using that by (rule split_sections_absent)
  show ?thesis
    unfolding r using present absent ex by blast
qed

lemma response_ok_index: "indexOf response_ok ''## Summary'' = 35"
  by (simp add: response_ok_def nl_def indexOf_def)

theorem analyzeAudio_sections_witness:
  "snd (analyzeAudio (genv_ok response_ok) blob_ok) = Inr (''Speaker 1: hello'', ''- greeting'')
   \<and> snd (analyzeAudio (genv_ok ''no sections'') blob_ok)
       = Inr (''no sections'', ''Could not generate structured summary.'')"
proof -
  let ?pre = "''## Transcription'' @ nl @ ''Speaker 1: hello'' @ nl @ nl"
  let ?post = "nl @ ''- greeting'' @ nl"
  have e: "API_KEY (genv_ok t) = Some ''k''" "''k'' \<noteq> ''''"
    "blobToBase64_result (genv_ok t) = Inr ''AQID''"
    "generateContent_result (genv_ok t) = Inr (Some t)"
    "t = (case Some t of None \<Rightarrow> '''' | Some u \<Rightarrow> u)" for t
    by (simp_all add: genv_ok_def)
  have split: "response_ok = ?pre @ ''## Summary'' @ ?post"
    by (simp add: response_ok_def)
  have "indexOf response_ok ''## Summary'' = int (length ?pre)"
    by (simp add: response_ok_index nl_def)
  then have first: "\<forall>j < length ?pre. \<not> startsWith (drop j response_ok) ''## Summary''"
    by (rule indexOf_no_earlier)
  have t1: "trim (replace ?pre ''## Transcription'' '''') = ''Speaker 1: hello''"
    by (simp add: trim_def replace_def indexOf_def is_ws_def nl_def)
  have t2: "trim ?post = ''- greeting''"
    by (simp add: trim_def is_ws_def nl_def)
  have absent: "\<forall>pre post. ''no sections'' \<noteq> pre @ ''## Summary'' @ post"
  proof (intro allI notI)
    fix pre post assume "''no sections'' = pre @ ''## Summary'' @ post"
    then have "CHR ''#'' \<in> set ''no sections''"
      by (metis append_Cons in_set_conv_decomp)
    then show False by simp
  qed
  from analyzeAudio_sections [OF e, of response_ok blob_ok] split first
  have a: "snd (analyzeAudio (genv_ok response_ok) blob_ok)
            = Inr (trim (replace ?pre ''## Transcription'' ''''), trim ?post)"
    by blast
  from analyzeAudio_sections [OF e, of "''no sections''" blob_ok] absent
  have b: "snd (analyzeAudio (genv_ok ''no sections'') blob_ok)
            = Inr (''no sections'', ''Could not generate structured summary.'')"
    by blast
  show ?thesis using a b t1 t2 by simp
qed

section \<open>Deleting and analysing a recording\<close>

text \<open>
  C6. In a list of recordings with pairwise distinct identifiers, split around the
  entry with the identifier \<open>i\<close>, \<open>handleDelete i\<close> leaves the entries before it
  followed by the entries after it, in their order.
\<close>

theorem handleDelete_removes_exactly:
  assumes "distinct (map id_rec (recordings s))"
    and "recordings s = before @ r # after" and "id_rec r = i"
  shows "recordings (handleDelete i s) = before @ after"
proof -
  have d: "distinct (map id_rec before @ i # map id_rec after)"
    using assms by simp
  have "\<forall>x \<in> set before. id_rec x \<noteq> i" using d by auto
  then have b: "filter (\<lambda>x. id_rec x \<noteq> i) before = before" by (simp add: filter_id_conv)
  have "\<forall>x \<in> set after. id_rec x \<noteq> i" using d by auto
  then have a: "filter (\<lambda>x. id_rec x \<noteq> i) after = after" by (simp add: filter_id_conv)
  show ?thesis using assms(2,3) a b by (simp add: handleDelete_def)
qed

lemma state3_recordings:
  "recordings state3 = [recording_ok ''3''] @ recording_ok ''2'' # [recording_ok ''1'']"
  by (simp add: state3_def)

lemma state3_distinct: "distinct (map id_rec (recordings state3))"
  by (simp add: state3_def recording_ok_def)

theorem handleDelete_removes_exactly_witness:
  "distinct (map id_rec (recordings state3))
   \<and> recordings state3 = [recording_ok ''3''] @ recording_ok ''2'' # [recording_ok ''1'']
   \<and> id_rec (recording_ok ''2'') = ''2''
   \<and> recordings (handleDelete ''2'' state3) = [recording_ok ''3''] @ [recording_ok ''1'']"
proof -
  have i: "id_rec (recording_ok ''2'') = ''2''" by (simp add: recording_ok_def)
  show ?thesis
    using handleDelete_removes_exactly [OF state3_distinct state3_recordings i]
      state3_distinct state3_recordings i
    by blast
qed

lemma find_id_Some:
  "r \<in> set rs \<Longrightarrow> id_rec r = i \<Longrightarrow> \<exists>found. find (\<lambda>x. id_rec x = i) rs = Some found"
  by (cases "find (\<lambda>x. id_rec x = i) rs") (auto simp: find_None_iff)

lemma analyzeAudio_result_any_blob:
  "snd (analyzeAudio env b) = snd (analyzeAudio env b')"
  by (simp add: analyzeAudio_def Let_def split: option.splits sum.splits)

lemma handleAnalyze_settle_processing:
  "i \<notin> processingIds (handleAnalyze_settle alert_text i outcome s)"
  by (simp add: handleAnalyze_settle_def Let_def split: sum.splits prod.splits)

lemma handleAnalyze_settle_success:
  "recordings (handleAnalyze_settle alert_text i (Inr (t, sm)) s) =
     map (\<lambda>x. if id_rec x = i then x\<lparr>transcription := Some t, summary := Some sm\<rparr> else x)
       (recordings s)"
  by (simp add: handleAnalyze_settle_def)

lemma handleAnalyze_settle_failure:
  "recordings (handleAnalyze_settle alert_text i (Inl e) s) = recordings s"
  "alerts (handleAnalyze_settle alert_text i (Inl e) s) = alerts s @ [alert_text]"
  by (simp_all add: handleAnalyze_settle_def)

text \<open>
  C5. Let the list hold a recording \<open>r\<close> with the identifier \<open>i\<close>. If the analysis
  returns the pair \<open>(t, sm)\<close> (by C10, the two sections of the response), then after
  \<open>handleAnalyze\<close> every entry with the identifier \<open>i\<close> has the transcription \<open>t\<close> and
  the summary \<open>sm\<close> and is otherwise as before, and every other entry is as before. If
  the analysis throws, the list is as before. In both cases \<open>i\<close> is not marked as
  processing afterwards.
\<close>

theorem handleAnalyze_outcome:
  assumes "r \<in> set (recordings s)" and "id_rec r = i"
    and "s' = handleAnalyze alert_text env i s"
  shows "(\<forall>t sm. snd (analyzeAudio env (blob r)) = Inr (t, sm) \<longrightarrow>
            length (recordings s') = length (recordings s)
            \<and> (\<forall>k < length (recordings s).
                  recordings s' ! k =
                    (if id_rec (recordings s ! k) = i
                     then (recordings s ! k)\<lparr>transcription := Some t, summary := Some sm\<rparr>
                     else recordings s ! k)))
         \<and> (\<forall>e. snd (analyzeAudio env (blob r)) = Inl e \<longrightarrow> recordings s' = recordings s)
         \<and> i \<notin> processingIds s'"
proof -
  obtain found where f: "find (\<lambda>x. id_rec x = i) (recordings s) = Some found"
    using find_id_Some [OF assms(1,2)] by blast
  define s1 where "s1 = s\<lparr>processingIds := insert i (processingIds s)\<rparr>"
  have rs1: "recordings s1 = recordings s" by (simp add: s1_def)
  have res: "snd (analyzeAudio env (blob found)) = snd (analyzeAudio env (blob r))"
    by (rule analyzeAudio_result_any_blob)
  have s': "s' = handleAnalyze_settle alert_text i (snd (analyzeAudio env (blob r))) s1"
    using f assms(3) res by (simp add: handleAnalyze_def handleAnalyze_begin_def s1_def)
  have ok: "length (recordings s') = length (recordings s)
            \<and> (\<forall>k < length (recordings s).
                  recordings s' ! k =
                    (if id_rec (recordings s ! k) = i
                     then (recordings s ! k)\<lparr>transcription := Some t, summary := Some sm\<rparr>
                     else recordings s ! k))"
    if "snd (analyzeAudio env (blob r)) = Inr (t, sm)" for t sm
    using that s' rs1 by (simp add: handleAnalyze_settle_success)
  have failed: "recordings s' = recordings s"
    if "snd (analyzeAudio env (blob r)) = Inl e" for e
    using that s' rs1 by (simp add: handleAnalyze_settle_failure)
  have unmarked: "i \<notin> processingIds s'"
    unfolding s' by (rule handleAnalyze_settle_processing)
  show ?thesis using ok failed unmarked by blast
qed

lemma analyzeAudio_response_ok:
  "snd (analyzeAudio (genv_ok response_ok) b) = Inr (''Speaker 1: hello'', ''- greeting'')"
proof -
  have "split_sections response_ok = (''Speaker 1: hello'', ''- greeting'')"
    by (simp add: split_sections_def response_ok_def nl_def indexOf_def substring_def
        substring_from_def clamp_index_def trim_def replace_def is_ws_def)
  then show ?thesis
    by (simp add: analyzeAudio_def genv_ok_def Let_def)
qed

lemma analyzeAudio_nokey:
  "snd (analyzeAudio (genv_nokey None) b) = Inl (Error api_key_missing)"
  by (simp add: analyzeAudio_def genv_nokey_def)

theorem handleAnalyze_outcome_witness:
  "recording_ok ''2'' \<in> set (recordings state3) \<and> id_rec (recording_ok ''2'') = ''2''
   \<and> recordings (handleAnalyze alert_A (genv_ok response_ok) ''2'' state3) ! 0 = recording_ok ''3''
   \<and> recordings (handleAnalyze alert_A (genv_ok response_ok) ''2'' state3) ! 1 =
       (recording_ok ''2'')\<lparr>transcription := Some ''Speaker 1: hello'', summary := Some ''- greeting''\<rparr>
   \<and> recordings (handleAnalyze alert_A (genv_ok response_ok) ''2'' state3) ! 2 = recording_ok ''1''
   \<and> ''2'' \<notin> processingIds (handleAnalyze alert_A (genv_ok response_ok) ''2'' state3)
   \<and> recordings (handleAnalyze alert_A (genv_nokey None) ''2'' state3) = recordings state3
   \<and> ''2'' \<notin> processingIds (handleAnalyze alert_A (genv_nokey None) ''2'' state3)"
proof -
  have m: "recording_ok ''2'' \<in> set (recordings state3)" by (simp add: state3_def)
  have i: "id_rec (recording_ok ''2'') = ''2''" by (simp add: recording_ok_def)
  have len: "length (recordings state3) = 3" by (simp add: state3_def)
  have ids: "id_rec (recordings state3 ! 0) \<noteq> ''2''" "id_rec (recordings state3 ! 1) = ''2''"
    "id_rec (recordings state3 ! 2) \<noteq> ''2''"
    by (simp_all add: state3_def recording_ok_def)
  have nth: "recordings state3 ! 0 = recording_ok ''3''" "recordings state3 ! 1 = recording_ok ''2''"
    "recordings state3 ! 2 = recording_ok ''1''"
    by (simp_all add: state3_def)
  note ok = handleAnalyze_outcome [OF m i refl, where alert_text = alert_A and env = "genv_ok response_ok"]
  note ko = handleAnalyze_outcome [OF m i refl, where alert_text = alert_A and env = "genv_nokey None"]
  from ok analyzeAudio_response_ok
  have a: "\<forall>k < 3. recordings (handleAnalyze alert_A (genv_ok response_ok) ''2'' state3) ! k =
      (if id_rec (recordings state3 ! k) = ''2''
       then (recordings state3 ! k)\<lparr>transcription := Some ''Speaker 1: hello'', summary := Some ''- greeting''\<rparr>
       else recordings state3 ! k)"
    using len by metis
  have a0: "recordings (handleAnalyze alert_A (genv_ok response_ok) ''2'' state3) ! 0 = recording_ok ''3''"
    using a ids(1) nth(1) by simp
  have a1: "recordings (handleAnalyze alert_A (genv_ok response_ok) ''2'' state3) ! 1 =
      (recording_ok ''2'')\<lparr>transcription := Some ''Speaker 1: hello'', summary := Some ''- greeting''\<rparr>"
    using a ids(2) nth(2) by simp
  have a2: "recordings (handleAnalyze alert_A (genv_ok response_ok) ''2'' state3) ! 2 = recording_ok ''1''"
    using a ids(3) nth(3) by simp
  from ko analyzeAudio_nokey
  have b: "recordings (handleAnalyze alert_A (genv_nokey None) ''2'' state3) = recordings state3"
    by blast
  show ?thesis using m i a0 a1 a2 b ok ko by blast
qed

section \<open>Facts about the helpers of the two components\<close>

lemma close_context_fields [simp]:
  "recorderState (close_context s) = recorderState s"
  "recordings (close_context s) = recordings s"
  "timer (close_context s) = timer s"
  "errorMsg (close_context s) = errorMsg s"
  "processingIds (close_context s) = processingIds s"
  "mediaRecorderRef (close_context s) = mediaRecorderRef s"
  "mixedStreamRef (close_context s) = mixedStreamRef s"
  "timerIntervalRef (close_context s) = timerIntervalRef s"
  "stopped_tracks (close_context s) = stopped_tracks s"
  "active_intervals (close_context s) = active_intervals s"
  "onended_handlers (close_context s) = onended_handlers s"
  "console (close_context s) = console s"
  "alerts (close_context s) = alerts s"
  "app.more (close_context s) = app.more s"
  by (simp_all add: close_context_def split: option.splits)

lemma clear_timer_fields [simp]:
  "recorderState (clear_timer s) = recorderState s"
  "recordings (clear_timer s) = recordings s"
  "timer (clear_timer s) = timer s"
  "errorMsg (clear_timer s) = errorMsg s"
  "processingIds (clear_timer s) = processingIds s"
  "mediaRecorderRef (clear_timer s) = mediaRecorderRef s"
  "audioContextRef (clear_timer s) = audioContextRef s"
  "mixedStreamRef (clear_timer s) = mixedStreamRef s"
  "timerIntervalRef (clear_timer s) = timerIntervalRef s"
  "stopped_tracks (clear_timer s) = stopped_tracks s"
  "onended_handlers (clear_timer s) = onended_handlers s"
  "console (clear_timer s) = console s"
  "alerts (clear_timer s) = alerts s"
  "app.more (clear_timer s) = app.more s"
  by (simp_all add: clear_timer_def split: option.splits)

lemma stop_tracks_fields [simp]:
  "recorderState (stop_tracks st s) = recorderState s"
  "recordings (stop_tracks st s) = recordings s"
  "timer (stop_tracks st s) = timer s"
  "errorMsg (stop_tracks st s) = errorMsg s"
  "processingIds (stop_tracks st s) = processingIds s"
  "mediaRecorderRef (stop_tracks st s) = mediaRecorderRef s"
  "audioContextRef (stop_tracks st s) = audioContextRef s"
  "mixedStreamRef (stop_tracks st s) = mixedStreamRef s"
  "timerIntervalRef (stop_tracks st s) = timerIntervalRef s"
  "stopped_tracks (stop_tracks st s) = stopped_tracks s \<union> set (map track_id st)"
  "active_intervals (stop_tracks st s) = active_intervals s"
  "onended_handlers (stop_tracks st s) = onended_handlers s"
  "console (stop_tracks st s) = console s"
  "alerts (stop_tracks st s) = alerts s"
  "app.more (stop_tracks st s) = app.more s"
  by (simp_all add: stop_tracks_def)

lemma helper_ext_fields [simp]:
  "includeMic (close_context a) = includeMic a"
  "activeStreams (close_context a) = activeStreams a"
  "includeMic (clear_timer a) = includeMic a"
  "activeStreams (clear_timer a) = activeStreams a"
  "includeMic (stop_tracks st a) = includeMic a"
  "activeStreams (stop_tracks st a) = activeStreams a"
  "systemStreamRef (close_context b) = systemStreamRef b"
  "systemStreamRef (clear_timer b) = systemStreamRef b"
  "systemStreamRef (stop_tracks st b) = systemStreamRef b"
  by (simp_all add: close_context_def clear_timer_def stop_tracks_def split: option.splits)

lemma cleanup_fields [simp]:
  "recorderState (cleanup s) = recorderState s"
  "recordings (cleanup s) = recordings s"
  "timer (cleanup s) = timer s"
  "errorMsg (cleanup s) = errorMsg s"
  "processingIds (cleanup s) = processingIds s"
  "mediaRecorderRef (cleanup s) = mediaRecorderRef s"
  "mixedStreamRef (cleanup s) = mixedStreamRef s"
  "timerIntervalRef (cleanup s) = timerIntervalRef s"
  "stopped_tracks (cleanup s) = stopped_tracks s \<union> set (map track_id (concat (activeStreams s)))"
  "onended_handlers (cleanup s) = onended_handlers s"
  "console (cleanup s) = console s"
  "alerts (cleanup s) = alerts s"
  "includeMic (cleanup s) = includeMic s"
  "activeStreams (cleanup s) = []"
  by (simp_all add: cleanup_def Let_def)

lemma stopStreams_fields [simp]:
  "recorderState (stopStreams s) = recorderState s"
  "recordings (stopStreams s) = recordings s"
  "timer (stopStreams s) = timer s"
  "errorMsg (stopStreams s) = errorMsg s"
  "processingIds (stopStreams s) = processingIds s"
  "mediaRecorderRef (stopStreams s) = mediaRecorderRef s"
  "mixedStreamRef (stopStreams s) = mixedStreamRef s"
  "timerIntervalRef (stopStreams s) = timerIntervalRef s"
  "active_intervals (stopStreams s) = active_intervals s"
  "onended_handlers (stopStreams s) = onended_handlers s"
  "console (stopStreams s) = console s"
  "alerts (stopStreams s) = alerts s"
  "systemStreamRef (stopStreams s) = systemStreamRef s"
  by (simp_all add: stopStreams_def Let_def split: option.splits)

lemma stopStreams_stopped: "stopped_tracks s \<subseteq> stopped_tracks (stopStreams s)"
  by (auto simp: stopStreams_def Let_def split: option.splits)

lemma start_failed_A_fields [simp]:
  "recorderState (start_failed_A err s) = IDLE"
  "errorMsg (start_failed_A err s) = Some (message_or_default err)"
  "recordings (start_failed_A err s) = recordings s"
  "mediaRecorderRef (start_failed_A err s) = mediaRecorderRef s"
  by (simp_all add: start_failed_A_def)

lemma start_failed_A_stopped: "stopped_tracks s \<subseteq> stopped_tracks (start_failed_A err s)"
  by (auto simp: start_failed_A_def)

lemma start_failed_B_fields [simp]:
  "recorderState (start_failed_B err s) = IDLE"
  "errorMsg (start_failed_B err s) = Some (message_or_default err)"
  "recordings (start_failed_B err s) = recordings s"
  "mediaRecorderRef (start_failed_B err s) = mediaRecorderRef s"
  by (simp_all add: start_failed_B_def)

lemma start_failed_B_stopped: "stopped_tracks s \<subseteq> stopped_tracks (start_failed_B err s)"
  using stopStreams_stopped by (fastforce simp: start_failed_B_def)

lemma no_audio_B_includes:
  "\<not> includes_str no_audio_B ''permissions policy''" "includes_str no_audio_B ''No system audio''"
  "includes_str no_audio_B ''Share system audio''" "includes_str no_audio_A ''Share Audio''"
  by (simp_all add: includes_str_def indexOf_def no_audio_B_def no_audio_A_def)

section \<open>Starting a recording\<close>

lemma no_audio_nonempty: "no_audio_A \<noteq> ''''" "no_audio_B \<noteq> ''''"
  by (simp_all add: no_audio_A_def no_audio_B_def)

lemma no_audio_outcome_A:
  assumes "getDisplayMedia_result env = Inr st" and "getAudioTracks st = []"
  shows "recorderState (startRecording_A env a) = IDLE"
   "errorMsg (startRecording_A env a) = Some no_audio_A"
   "recordings (startRecording_A env a) = recordings a"
   "track_id ` set st \<subseteq> stopped_tracks (startRecording_A env a)"
  using assms no_audio_nonempty
  by (auto simp: startRecording_A_def Let_def inner_catch_A_def Error_def message_or_default_def
      start_failed_A_def)

lemma no_audio_outcome_B:
  assumes "mediaDevices_supported env" "getDisplayMedia_result env = Inr st" and "getAudioTracks st = []"
  shows "recorderState (startRecording_B env b) = IDLE"
   "errorMsg (startRecording_B env b) = Some no_audio_B"
   "recordings (startRecording_B env b) = recordings b"
   "track_id ` set st \<subseteq> stopped_tracks (startRecording_B env b)"
proof -
  have s: "startRecording_B env b =
     start_failed_B (Error no_audio_B)
       ((stop_tracks st (b\<lparr>errorMsg := None, recorderState := PREPARING\<rparr>))
          \<lparr>console := console b @ [(''System audio selection cancelled or failed'', Error no_audio_B)]\<rparr>)"
    using assms no_audio_nonempty no_audio_B_includes
    by (simp add: startRecording_B_def Let_def inner_catch_B_def Error_def)
  show "recorderState (startRecording_B env b) = IDLE"
   "errorMsg (startRecording_B env b) = Some no_audio_B"
   "recordings (startRecording_B env b) = recordings b"
    unfolding s using no_audio_nonempty by (simp_all add: message_or_default_def Error_def)
  have "track_id ` set st \<subseteq> stopped_tracks ((stop_tracks st (b\<lparr>errorMsg := None, recorderState := PREPARING\<rparr>))
          \<lparr>console := console b @ [(''System audio selection cancelled or failed'', Error no_audio_B)]\<rparr>)"
    by simp
  then show "track_id ` set st \<subseteq> stopped_tracks (startRecording_B env b)"
    unfolding s using start_failed_B_stopped by blast
qed

lemma denied_outcome_A:
  assumes "getDisplayMedia_result env = Inl e" and "ename e = ''NotAllowedError''"
  shows "recorderState (startRecording_A env a) = IDLE"
   "errorMsg (startRecording_A env a) = None"
   "recordings (startRecording_A env a) = recordings a"
  using assms
  by (simp_all add: startRecording_A_def Let_def inner_catch_A_def)

lemma denied_outcome_B:
  assumes "mediaDevices_supported env" "getDisplayMedia_result env = Inl e" and "ename e = ''NotAllowedError''"
  shows "recorderState (startRecording_B env b) = IDLE"
   "errorMsg (startRecording_B env b) = None"
   "recordings (startRecording_B env b) = recordings b"
  using assms
  by (simp_all add: startRecording_B_def Let_def inner_catch_B_def)

lemma start_recorder_fields [simp]:
  "recorderState (start_recorder env mixed ty tb s) = RECORDING"
  "recordings (start_recorder env mixed ty tb s) = recordings s"
  "timer (start_recorder env mixed ty tb s) = 0"
  "errorMsg (start_recorder env mixed ty tb s) = errorMsg s"
  "processingIds (start_recorder env mixed ty tb s) = processingIds s"
  "mediaRecorderRef (start_recorder env mixed ty tb s) =
     Some \<lparr>stream = mixed, mimeType = ty, rstate = recording, stop_queued = False, chunks = [],
           timer_closure = tb, mimeType_closure = ty\<rparr>"
  "active_intervals (start_recorder env mixed ty tb s) = insert (setInterval_result env) (active_intervals s)"
  "console (start_recorder env mixed ty tb s) = console s"
  "stopped_tracks (start_recorder env mixed ty tb s) = stopped_tracks s"
  by (simp_all add: start_recorder_def Let_def)

lemma capture_microphone_fields [simp]:
  "snd (capture_microphone env w s) = microphone_of env w"
  "recordings (fst (capture_microphone env w s)) = recordings s"
  "errorMsg (fst (capture_microphone env w s)) = errorMsg s"
  "processingIds (fst (capture_microphone env w s)) = processingIds s"
  "active_intervals (fst (capture_microphone env w s)) = active_intervals s"
  "console (fst (capture_microphone env w s)) =
     console s @ (if w then (case getUserMedia_result env of Inr m \<Rightarrow> [] | Inl e \<Rightarrow> [(''Microphone access denied'', e)]) else [])"
  by (simp_all add: capture_microphone_def microphone_of_def split: sum.splits)

lemma startRecording_A_started:
  assumes "getDisplayMedia_result env = Inr sys" and "getAudioTracks sys \<noteq> []"
    and "getVideoTracks sys \<noteq> []"
  shows "recorderState (startRecording_A env s) = RECORDING"
    "recordings (startRecording_A env s) = recordings s"
    "timer (startRecording_A env s) = 0"
    "errorMsg (startRecording_A env s) = None"
    "mediaRecorderRef (startRecording_A env s) =
       Some (recorder_of (sys # microphone_of env (includeMic s)) env (choose_mimeType_A env) (timer s))"
    "setInterval_result env \<in> active_intervals (startRecording_A env s)"
    "console (startRecording_A env s) = console s @
      (if includeMic s then (case getUserMedia_result env of Inr m \<Rightarrow> [] | Inl e \<Rightarrow> [(''Microphone access denied'', e)]) else [])"
  using assms
  by (simp_all add: startRecording_A_def Let_def recorder_of_def split_beta split: list.splits)

lemma startRecording_B_started:
  assumes "mediaDevices_supported env" "getDisplayMedia_result env = Inr sys" and "getAudioTracks sys \<noteq> []"
    and "getVideoTracks sys \<noteq> []"
  shows "recorderState (startRecording_B env s) = RECORDING"
    "recordings (startRecording_B env s) = recordings s"
    "timer (startRecording_B env s) = 0"
    "errorMsg (startRecording_B env s) = None"
    "mediaRecorderRef (startRecording_B env s) =
       Some (recorder_of [sys] env (choose_mimeType_B env) (timer s))"
    "setInterval_result env \<in> active_intervals (startRecording_B env s)"
  using assms
  by (simp_all add: startRecording_B_def Let_def recorder_of_def split: list.splits)

section \<open>Capture sessions\<close>

lemma run_A_Nil [simp]: "run_A [] s = s"
  by (simp add: run_A_def)

lemma run_A_Cons [simp]: "run_A (e # es) s = run_A es (step_A e s)"
  by (simp add: run_A_def)

lemma run_A_append: "run_A (es @ fs) s = run_A fs (run_A es s)"
  by (simp add: run_A_def)

lemma run_B_Nil [simp]: "run_B [] s = s"
  by (simp add: run_B_def)

lemma run_B_Cons [simp]: "run_B (e # es) s = run_B es (step_B e s)"
  by (simp add: run_B_def)

lemma run_B_append: "run_B (es @ fs) s = run_B fs (run_B es s)"
  by (simp add: run_B_def)

lemma tick_fields [simp]:
  "recorderState (tick h s) = recorderState s"
  "recordings (tick h s) = recordings s"
  "mediaRecorderRef (tick h s) = mediaRecorderRef s"
  "active_intervals (tick h s) = active_intervals s"
  by (simp_all add: tick_def)

lemma deliver_chunk_fields [simp]:
  "recorderState (deliver_chunk d s) = recorderState s"
  "recordings (deliver_chunk d s) = recordings s"
  "active_intervals (deliver_chunk d s) = active_intervals s"
  "timer (deliver_chunk d s) = timer s"
  by (simp_all add: deliver_chunk_def ondataavailable_def split: option.splits)

lemma deliver_chunk_recording:
  assumes "mediaRecorderRef s = Some r" and "rstate r = recording"
  shows "mediaRecorderRef (deliver_chunk d s) =
           Some (r\<lparr>chunks := chunks r @ (if bsize d > 0 then [d] else [])\<rparr>)"
  using assms by (simp add: deliver_chunk_def ondataavailable_def)

lemma session_step_A:
  assumes "session_event e" and "mediaRecorderRef s = Some r" and "rstate r = recording"
  shows "mediaRecorderRef (step_A e s) = Some (r\<lparr>chunks := chunks r @ delivered [e]\<rparr>)
         \<and> recorderState (step_A e s) = recorderState s
         \<and> recordings (step_A e s) = recordings s"
  using assms by (cases e) (simp_all add: deliver_chunk_recording)

lemma session_step_B:
  assumes "session_event e" and "mediaRecorderRef s = Some r" and "rstate r = recording"
  shows "mediaRecorderRef (step_B e s) = Some (r\<lparr>chunks := chunks r @ delivered [e]\<rparr>)
         \<and> recorderState (step_B e s) = recorderState s
         \<and> recordings (step_B e s) = recordings s"
  using assms by (cases e) (simp_all add: deliver_chunk_recording)

lemma delivered_Cons: "delivered (e # es) = delivered [e] @ delivered es"
  by (cases e) simp_all

lemma session_run_A:
  assumes "list_all session_event es" and "mediaRecorderRef s = Some r" and "rstate r = recording"
  shows "mediaRecorderRef (run_A es s) = Some (r\<lparr>chunks := chunks r @ delivered es\<rparr>)
         \<and> recorderState (run_A es s) = recorderState s
         \<and> recordings (run_A es s) = recordings s"
  using assms
proof (induction es arbitrary: s r)
  case Nil
  then show ?case by simp
next
  case (Cons e es)
  let ?r = "r\<lparr>chunks := chunks r @ delivered [e]\<rparr>"
  have e: "session_event e" and es: "list_all session_event es"
    using Cons.prems(1) by simp_all
  note st = session_step_A [OF e Cons.prems(2,3)]
  have rs: "rstate ?r = recording" using Cons.prems(3) by simp
  from st have m: "mediaRecorderRef (step_A e s) = Some ?r" by blast
  note ih = Cons.IH [OF es m rs]
  have "chunks ?r @ delivered es = chunks r @ delivered (e # es)"
    using delivered_Cons [of e es] by simp
  then have "?r\<lparr>chunks := chunks ?r @ delivered es\<rparr> = r\<lparr>chunks := chunks r @ delivered (e # es)\<rparr>"
    by simp
  with ih st show ?case by simp
qed

lemma session_run_B:
  assumes "list_all session_event es" and "mediaRecorderRef s = Some r" and "rstate r = recording"
  shows "mediaRecorderRef (run_B es s) = Some (r\<lparr>chunks := chunks r @ delivered es\<rparr>)
         \<and> recorderState (run_B es s) = recorderState s
         \<and> recordings (run_B es s) = recordings s"
  using assms
proof (induction es arbitrary: s r)
  case Nil
  then show ?case by simp
next
  case (Cons e es)
  let ?r = "r\<lparr>chunks := chunks r @ delivered [e]\<rparr>"
  have e: "session_event e" and es: "list_all session_event es"
    using Cons.prems(1) by simp_all
  note st = session_step_B [OF e Cons.prems(2,3)]
  have rs: "rstate ?r = recording" using Cons.prems(3) by simp
  from st have m: "mediaRecorderRef (step_B e s) = Some ?r" by blast
  note ih = Cons.IH [OF es m rs]
  have "chunks ?r @ delivered es = chunks r @ delivered (e # es)"
    using delivered_Cons [of e es] by simp
  then have "?r\<lparr>chunks := chunks ?r @ delivered es\<rparr> = r\<lparr>chunks := chunks r @ delivered (e # es)\<rparr>"
    by simp
  with ih st show ?case by simp
qed


lemma click_stop_A:
  assumes "recorderState s = RECORDING" and "mediaRecorderRef s = Some r" and "rstate r = recording"
  shows "mediaRecorderRef (step_A ClickStop s) = Some (r\<lparr>rstate := inactive, stop_queued := True\<rparr>)"
    "recordings (step_A ClickStop s) = recordings s"
  using assms by (simp_all add: stopRecording_A_def stop_recorder_def)

lemma click_stop_B:
  assumes "recorderState s = RECORDING" and "mediaRecorderRef s = Some r" and "rstate r = recording"
  shows "mediaRecorderRef (step_B ClickStop s) = Some (r\<lparr>rstate := inactive, stop_queued := True\<rparr>)"
    "recordings (step_B ClickStop s) = recordings s"
  using assms by (simp_all add: stopRecording_B_def stop_recorder_def)

lemma recorder_stop_A:
  assumes "mediaRecorderRef s = Some r" and "stop_queued r"
  shows "recordings (step_A (RecorderStop senv) s) = newRecording_A senv r # recordings s"
    "recorderState (step_A (RecorderStop senv) s) = IDLE"
    "timer (step_A (RecorderStop senv) s) = 0"
  using assms by (simp_all add: onstop_A_def)

lemma recorder_stop_B:
  assumes "mediaRecorderRef s = Some r" and "stop_queued r"
  shows "recordings (step_B (RecorderStop senv) s) = newRecording_B senv r # recordings s"
    "recorderState (step_B (RecorderStop senv) s) = IDLE"
    "timer (step_B (RecorderStop senv) s) = 0"
  using assms by (simp_all add: onstop_B_def)

text \<open>
  A whole session of the first variant: the start is clicked and granted, ticks and
  chunks follow, the stop is clicked and the platform delivers the \<^verbatim>\<open>stop\<close> event.
  One recording is prepended; it is made from the recorder of the start with the
  chunks delivered.
\<close>

lemma session_A:
  assumes "recorderState s \<noteq> RECORDING \<and> recorderState s \<noteq> PREPARING"
    and "getDisplayMedia_result env = Inr sys" and "getAudioTracks sys \<noteq> []"
    and "getVideoTracks sys \<noteq> []" and "list_all session_event es"
  shows "recordings (run_A (ClickStart env # es @ [ClickStop, RecorderStop senv]) s) =
           newRecording_A senv
             ((recorder_of (sys # microphone_of env (includeMic s)) env (choose_mimeType_A env) (timer s))
                \<lparr>chunks := delivered es, rstate := inactive, stop_queued := True\<rparr>)
           # recordings s"
proof -
  let ?r = "recorder_of (sys # microphone_of env (includeMic s)) env (choose_mimeType_A env) (timer s)"
  let ?s1 = "step_A (ClickStart env) s"
  have s1: "?s1 = startRecording_A env s" using assms(1) by simp
  note started = startRecording_A_started [OF assms(2,3,4), of s, folded s1]
  have rr: "rstate ?r = recording" by (simp add: recorder_of_def)
  note run = session_run_A [OF assms(5) started(5) rr]
  let ?s2 = "run_A es ?s1"
  let ?r2 = "?r\<lparr>chunks := chunks ?r @ delivered es\<rparr>"
  have m2: "mediaRecorderRef ?s2 = Some ?r2" using run by blast
  have st2: "recorderState ?s2 = RECORDING" using run started(1) by simp
  have rec2: "recordings ?s2 = recordings s" using run started(2) by simp
  have rr2: "rstate ?r2 = recording" using rr by simp
  let ?r3 = "?r2\<lparr>rstate := inactive, stop_queued := True\<rparr>"
  let ?s3 = "step_A ClickStop ?s2"
  note s3 = click_stop_A [OF st2 m2 rr2]
  have q3: "stop_queued ?r3" by simp
  have rec3: "recordings ?s3 = recordings s" using s3(2) rec2 by simp
  have "recordings (step_A (RecorderStop senv) ?s3) = newRecording_A senv ?r3 # recordings s"
    using recorder_stop_A(1) [OF s3(1) q3] rec3 by simp
  moreover have "?r3 = ?r\<lparr>chunks := delivered es, rstate := inactive, stop_queued := True\<rparr>"
    by (simp add: recorder_of_def)
  ultimately show ?thesis by (simp add: run_A_append)
qed

text \<open>The same session in the second variant.\<close>

lemma session_B:
  assumes "recorderState s = IDLE" and "mediaDevices_supported env"
    and "getDisplayMedia_result env = Inr sys" and "getAudioTracks sys \<noteq> []"
    and "getVideoTracks sys \<noteq> []" and "list_all session_event es"
  shows "recordings (run_B (ClickStart env # es @ [ClickStop, RecorderStop senv]) s) =
           newRecording_B senv
             ((recorder_of [sys] env (choose_mimeType_B env) (timer s))
                \<lparr>chunks := delivered es, rstate := inactive, stop_queued := True\<rparr>)
           # recordings s"
proof -
  let ?r = "recorder_of [sys] env (choose_mimeType_B env) (timer s)"
  let ?s1 = "step_B (ClickStart env) s"
  have s1: "?s1 = startRecording_B env s" using assms(1) by simp
  note started = startRecording_B_started [OF assms(2,3,4,5), of s, folded s1]
  have rr: "rstate ?r = recording" by (simp add: recorder_of_def)
  note run = session_run_B [OF assms(6) started(5) rr]
  let ?s2 = "run_B es ?s1"
  let ?r2 = "?r\<lparr>chunks := chunks ?r @ delivered es\<rparr>"
  have m2: "mediaRecorderRef ?s2 = Some ?r2" using run by blast
  have st2: "recorderState ?s2 = RECORDING" using run started(1) by simp
  have rec2: "recordings ?s2 = recordings s" using run started(2) by simp
  have rr2: "rstate ?r2 = recording" using rr by simp
  let ?r3 = "?r2\<lparr>rstate := inactive, stop_queued := True\<rparr>"
  let ?s3 = "step_B ClickStop ?s2"
  note s3 = click_stop_B [OF st2 m2 rr2]
  have q3: "stop_queued ?r3" by simp
  have rec3: "recordings ?s3 = recordings s" using s3(2) rec2 by simp
  have "recordings (step_B (RecorderStop senv) ?s3) = newRecording_B senv ?r3 # recordings s"
    using recorder_stop_B(1) [OF s3(1) q3] rec3 by simp
  moreover have "?r3 = ?r\<lparr>chunks := delivered es, rstate := inactive, stop_queued := True\<rparr>"
    by (simp add: recorder_of_def)
  ultimately show ?thesis by (simp add: run_B_append)
qed

text \<open>
  C2. If \<^verbatim>\<open>getDisplayMedia\<close> is granted and the stream it gives has no audio track, then
  after \<open>startRecording\<close> (either variant) the recorder state is \<open>IDLE\<close>, the error
  message is the one of the variant that tells to share the audio, the list of
  recordings is as before, and every track of the stream is stopped.
\<close>

theorem startRecording_no_audio_track:
  assumes "mediaDevices_supported env" and "getDisplayMedia_result env = Inr st"
    and "getAudioTracks st = []"
  shows "recorderState (startRecording_A env a) = IDLE
         \<and> errorMsg (startRecording_A env a) = Some no_audio_A
         \<and> recordings (startRecording_A env a) = recordings a
         \<and> track_id ` set st \<subseteq> stopped_tracks (startRecording_A env a)
         \<and> recorderState (startRecording_B env b) = IDLE
         \<and> errorMsg (startRecording_B env b) = Some no_audio_B
         \<and> recordings (startRecording_B env b) = recordings b
         \<and> track_id ` set st \<subseteq> stopped_tracks (startRecording_B env b)
         \<and> includes_str no_audio_A ''Share Audio''
         \<and> includes_str no_audio_B ''Share system audio''"
  using no_audio_outcome_A [OF assms(2,3), of a] no_audio_outcome_B [OF assms, of b]
    no_audio_B_includes
  by blast

theorem startRecording_no_audio_track_witness:
  "mediaDevices_supported (env_of (Inr sys_silent))
   \<and> getDisplayMedia_result (env_of (Inr sys_silent)) = Inr sys_silent
   \<and> getAudioTracks sys_silent = []
   \<and> recorderState (startRecording_A (env_of (Inr sys_silent)) init_A) = IDLE
   \<and> errorMsg (startRecording_A (env_of (Inr sys_silent)) init_A) = Some no_audio_A
   \<and> recordings (startRecording_A (env_of (Inr sys_silent)) init_A) = []
   \<and> 1 \<in> stopped_tracks (startRecording_A (env_of (Inr sys_silent)) init_A)
   \<and> recorderState (startRecording_B (env_of (Inr sys_silent)) init_B) = IDLE
   \<and> errorMsg (startRecording_B (env_of (Inr sys_silent)) init_B) = Some no_audio_B
   \<and> recordings (startRecording_B (env_of (Inr sys_silent)) init_B) = []
   \<and> 1 \<in> stopped_tracks (startRecording_B (env_of (Inr sys_silent)) init_B)"
proof -
  have h: "mediaDevices_supported (env_of (Inr sys_silent))"
    "getDisplayMedia_result (env_of (Inr sys_silent)) = Inr sys_silent"
    "getAudioTracks sys_silent = []"
    by (simp_all add: env_of_def sys_silent_def getAudioTracks_def)
  have t: "track_id ` set sys_silent = {1}" by (simp add: sys_silent_def)
  have i: "recordings init_A = []" "recordings init_B = []"
    by (simp_all add: init_A_def init_B_def init_app_def)
  show ?thesis
    using startRecording_no_audio_track [OF h, of init_A init_B] h t i by simp
qed

text \<open>
  C3. If \<^verbatim>\<open>getDisplayMedia\<close> rejects with a \<open>NotAllowedError\<close>, then after
  \<open>startRecording\<close> (either variant) the recorder state is \<open>IDLE\<close>, no error message
  is set, and the list of recordings is as before.
\<close>

theorem startRecording_denied:
  assumes "mediaDevices_supported env" and "getDisplayMedia_result env = Inl e"
    and "ename e = ''NotAllowedError''"
  shows "recorderState (startRecording_A env a) = IDLE
         \<and> errorMsg (startRecording_A env a) = None
         \<and> recordings (startRecording_A env a) = recordings a
         \<and> recorderState (startRecording_B env b) = IDLE
         \<and> errorMsg (startRecording_B env b) = None
         \<and> recordings (startRecording_B env b) = recordings b"
  using denied_outcome_A [OF assms(2,3), of a] denied_outcome_B [OF assms, of b]
  by blast

theorem startRecording_denied_witness:
  "mediaDevices_supported (env_of (Inl denied))
   \<and> getDisplayMedia_result (env_of (Inl denied)) = Inl denied
   \<and> ename denied = ''NotAllowedError''
   \<and> recorderState (startRecording_A (env_of (Inl denied)) state3) = IDLE
   \<and> errorMsg (startRecording_A (env_of (Inl denied)) state3) = None
   \<and> recordings (startRecording_A (env_of (Inl denied)) state3) = recordings state3
   \<and> recorderState (startRecording_B (env_of (Inl denied)) init_B) = IDLE
   \<and> errorMsg (startRecording_B (env_of (Inl denied)) init_B) = None
   \<and> recordings (startRecording_B (env_of (Inl denied)) init_B) = recordings init_B"
proof -
  have h: "mediaDevices_supported (env_of (Inl denied))"
    "getDisplayMedia_result (env_of (Inl denied)) = Inl denied"
    "ename denied = ''NotAllowedError''"
    by (simp_all add: env_of_def denied_def)
  show ?thesis
    using startRecording_denied [OF h, of state3 init_B] h by simp
qed

text \<open>
  C4. In the first variant, let the start button be clickable, the microphone toggle
  be set, \<^verbatim>\<open>getDisplayMedia\<close> give a stream with an audio and a video track, and
  \<^verbatim>\<open>getUserMedia\<close> reject. Then the click on the start button leaves the state
  \<open>RECORDING\<close> with a recorder that records a mix whose only source is the display
  stream, and the rejection is a line of the console. After any ticks and chunks, the
  click on the stop button and the \<^verbatim>\<open>stop\<close> event, one recording is prepended; its
  payload is the chunks that this recorder delivered.
\<close>

theorem microphone_failure_not_fatal:
  assumes "recorderState s \<noteq> RECORDING \<and> recorderState s \<noteq> PREPARING" and "includeMic s"
    and "getDisplayMedia_result env = Inr sys" and "getAudioTracks sys \<noteq> []"
    and "getVideoTracks sys \<noteq> []" and "getUserMedia_result env = Inl e"
    and "list_all session_event es"
  shows "recorderState (step_A (ClickStart env) s) = RECORDING
         \<and> (\<exists>r. mediaRecorderRef (step_A (ClickStart env) s) = Some r
                \<and> rstate r = recording \<and> mixed_sources (stream r) = [sys])
         \<and> console (step_A (ClickStart env) s) = console s @ [(''Microphone access denied'', e)]
         \<and> (\<exists>nr. recordings (run_A (ClickStart env # es @ [ClickStop, RecorderStop senv]) s)
                   = nr # recordings s
                 \<and> bytes (blob nr) = concat (map bytes (delivered es)))"
proof -
  have s1: "step_A (ClickStart env) s = startRecording_A env s" using assms(1) by simp
  note started = startRecording_A_started [OF assms(3,4,5), of s]
  have mic: "microphone_of env (includeMic s) = []"
    using assms(2,6) by (simp add: microphone_of_def)
  have a: "recorderState (step_A (ClickStart env) s) = RECORDING"
    unfolding s1 by (rule started(1))
  have b: "\<exists>r. mediaRecorderRef (step_A (ClickStart env) s) = Some r
                \<and> rstate r = recording \<and> mixed_sources (stream r) = [sys]"
    unfolding s1 started(5) mic by (simp add: recorder_of_def)
  have c: "console (step_A (ClickStart env) s) = console s @ [(''Microphone access denied'', e)]"
    unfolding s1 started(7) using assms(2,6) by simp
  have d: "\<exists>nr. recordings (run_A (ClickStart env # es @ [ClickStop, RecorderStop senv]) s)
                   = nr # recordings s
                 \<and> bytes (blob nr) = concat (map bytes (delivered es))"
    unfolding session_A [OF assms(1,3,4,5,7)]
    by (simp add: newRecording_A_def Let_def new_Blob_def)
  show ?thesis using a b c d by blast
qed

theorem microphone_failure_not_fatal_witness:
  "(recorderState init_A \<noteq> RECORDING \<and> recorderState init_A \<noteq> PREPARING) \<and> includeMic init_A
   \<and> getDisplayMedia_result (env_of (Inr sys_ok)) = Inr sys_ok
   \<and> getAudioTracks sys_ok \<noteq> [] \<and> getVideoTracks sys_ok \<noteq> []
   \<and> getUserMedia_result (env_of (Inr sys_ok)) = Inl denied
   \<and> list_all session_event [IntervalTick 7, DataAvailable blob_ok]
   \<and> recorderState (step_A (ClickStart (env_of (Inr sys_ok))) init_A) = RECORDING
   \<and> console (step_A (ClickStart (env_of (Inr sys_ok))) init_A)
       = [(''Microphone access denied'', denied)]
   \<and> (\<exists>nr. recordings (run_A (ClickStart (env_of (Inr sys_ok))
                 # [IntervalTick 7, DataAvailable blob_ok] @ [ClickStop, RecorderStop senv_ok]) init_A)
             = [nr]
           \<and> bytes (blob nr) = [1, 2, 3])"
proof -
  have h: "recorderState init_A \<noteq> RECORDING \<and> recorderState init_A \<noteq> PREPARING"
    "includeMic init_A"
    "getDisplayMedia_result (env_of (Inr sys_ok)) = Inr sys_ok"
    "getAudioTracks sys_ok \<noteq> []" "getVideoTracks sys_ok \<noteq> []"
    "getUserMedia_result (env_of (Inr sys_ok)) = Inl denied"
    "list_all session_event [IntervalTick 7, DataAvailable blob_ok]"
    by (simp_all add: init_A_def init_app_def env_of_def sys_ok_def getAudioTracks_def
        getVideoTracks_def)
  have i: "recordings init_A = []" "console init_A = []"
    by (simp_all add: init_A_def init_app_def)
  have d: "concat (map bytes (delivered [IntervalTick 7, DataAvailable blob_ok])) = [1, 2, 3]"
    by (simp add: blob_ok_def bsize_def)
  note th = microphone_failure_not_fatal [OF h, of senv_ok, unfolded i d append_Nil]
  show ?thesis using th h by blast
qed

section \<open>The recording of a session\<close>

lemma ticks_A:
  "h \<in> active_intervals s \<Longrightarrow> timer (run_A (replicate n (IntervalTick h)) s) = timer s + n"
proof (induction n arbitrary: s)
  case 0
  then show ?case by simp
next
  case (Suc n)
  have "h \<in> active_intervals (tick h s)" using Suc.prems by simp
  from Suc.IH [OF this] Suc.prems show ?case by (simp add: tick_def)
qed

lemma ticks_B:
  "h \<in> active_intervals s \<Longrightarrow> timer (run_B (replicate n (IntervalTick h)) s) = timer s + n"
proof (induction n arbitrary: s)
  case 0
  then show ?case by simp
next
  case (Suc n)
  have "h \<in> active_intervals (tick h s)" using Suc.prems by simp
  from Suc.IH [OF this] Suc.prems show ?case by (simp add: tick_def)
qed

lemma session_ticks: "list_all session_event (replicate n (IntervalTick h))"
  by (induction n) simp_all

lemma env_ok_facts:
  "mediaDevices_supported (env_of (Inr sys_ok))"
  "getDisplayMedia_result (env_of (Inr sys_ok)) = Inr sys_ok"
  "getAudioTracks sys_ok \<noteq> []" "getVideoTracks sys_ok \<noteq> []"
  "setInterval_result (env_of (Inr sys_ok)) = 7"
  by (simp_all add: env_of_def sys_ok_def getAudioTracks_def getVideoTracks_def)

lemma init_facts:
  "recorderState init_A = IDLE" "recordings init_A = []" "timer init_A = 0"
  "recorderState init_B = IDLE" "recordings init_B = []" "timer init_B = 0"
  by (simp_all add: init_A_def init_B_def init_app_def)

lemma duration_newRecording [simp]:
  "duration (newRecording_A senv r) = timer_closure r"
  "duration (newRecording_B senv r) = timer_closure r"
  by (simp_all add: newRecording_A_def newRecording_B_def Let_def)

text \<open>
  In a session of either variant the duration of the recording is the value that the
  counter had in the render whose start button was clicked, whatever the ticks in
  between.
\<close>

lemma session_duration:
  assumes "getDisplayMedia_result env = Inr sys" and "getAudioTracks sys \<noteq> []"
    and "getVideoTracks sys \<noteq> []" and "list_all session_event es"
  shows "recorderState a \<noteq> RECORDING \<and> recorderState a \<noteq> PREPARING \<Longrightarrow>
         map duration (recordings (run_A (ClickStart env # es @ [ClickStop, RecorderStop senv]) a))
           = timer a # map duration (recordings a)"
    and "recorderState b = IDLE \<Longrightarrow> mediaDevices_supported env \<Longrightarrow>
         map duration (recordings (run_B (ClickStart env # es @ [ClickStop, RecorderStop senv]) b))
           = timer b # map duration (recordings b)"
proof -
  show "map duration (recordings (run_A (ClickStart env # es @ [ClickStop, RecorderStop senv]) a))
           = timer a # map duration (recordings a)"
    if "recorderState a \<noteq> RECORDING \<and> recorderState a \<noteq> PREPARING"
    unfolding session_A [OF that assms] by (simp add: recorder_of_def)
  show "map duration (recordings (run_B (ClickStart env # es @ [ClickStop, RecorderStop senv]) b))
           = timer b # map duration (recordings b)"
    if "recorderState b = IDLE" and "mediaDevices_supported env"
    unfolding session_B [OF that assms] by (simp add: recorder_of_def)
qed

text \<open>
  C1 (the code departs from the claim). A session of five seconds, in either variant,
  from the initial state: the display capture is granted, the timer ticks five times,
  the stop button is clicked and the \<^verbatim>\<open>stop\<close> event arrives. The counter shows
  \<open>5\<close> before the stop; one recording is created, and its duration is \<open>0\<close>: the
  \<^verbatim>\<open>timer\<close> that \<^verbatim>\<open>onstop\<close> reads is the one of the render in which the start
  button was clicked.
\<close>

theorem duration_is_timer_of_start_render:
  "timer (run_A (ClickStart (env_of (Inr sys_ok)) # replicate 5 (IntervalTick 7)) init_A) = 5
   \<and> map duration (recordings (run_A (ClickStart (env_of (Inr sys_ok))
          # replicate 5 (IntervalTick 7) @ [ClickStop, RecorderStop senv_ok]) init_A)) = [0]
   \<and> timer (run_B (ClickStart (env_of (Inr sys_ok)) # replicate 5 (IntervalTick 7)) init_B) = 5
   \<and> map duration (recordings (run_B (ClickStart (env_of (Inr sys_ok))
          # replicate 5 (IntervalTick 7) @ [ClickStop, RecorderStop senv_ok]) init_B)) = [0]"
proof -
  let ?env = "env_of (Inr sys_ok)"
  have gA: "recorderState init_A \<noteq> RECORDING \<and> recorderState init_A \<noteq> PREPARING"
    by (simp add: init_facts)
  have sA: "step_A (ClickStart ?env) init_A = startRecording_A ?env init_A"
    by (simp add: init_facts)
  have sB: "step_B (ClickStart ?env) init_B = startRecording_B ?env init_B"
    by (simp add: init_facts)
  note stA = startRecording_A_started [OF env_ok_facts(2,3,4), of init_A]
  note stB = startRecording_B_started [OF env_ok_facts(1,2,3,4), of init_B]
  have a: "timer (run_A (ClickStart ?env # replicate 5 (IntervalTick 7)) init_A) = 5"
    using ticks_A [of 7 "startRecording_A ?env init_A" 5] stA(3,6) sA
    by (simp add: env_ok_facts(5))
  have b: "timer (run_B (ClickStart ?env # replicate 5 (IntervalTick 7)) init_B) = 5"
    using ticks_B [of 7 "startRecording_B ?env init_B" 5] stB(3,6) sB
    by (simp add: env_ok_facts(5))
  have c: "map duration (recordings (run_A (ClickStart ?env
          # replicate 5 (IntervalTick 7) @ [ClickStop, RecorderStop senv_ok]) init_A)) = [0]"
    unfolding session_A [OF gA env_ok_facts(2,3,4) session_ticks]
    by (simp add: init_facts recorder_of_def)
  have d: "map duration (recordings (run_B (ClickStart ?env
          # replicate 5 (IntervalTick 7) @ [ClickStop, RecorderStop senv_ok]) init_B)) = [0]"
    unfolding session_B [OF init_facts(4) env_ok_facts(1,2,3,4) session_ticks]
    by (simp add: init_facts recorder_of_def)
  show ?thesis using a b c d by blast
qed

lemma extension_of_finalType:
  "extension_of (finalType_of ty) = (if includes_str ty ''mp4'' then ''mp4'' else ''webm'')"
proof -
  have "includes_str ''video/mp4'' ''mp4''" "\<not> includes_str ''audio/webm'' ''mp4''"
    by (simp_all add: includes_str_def indexOf_def)
  then show ?thesis by (simp add: extension_of_def finalType_of_def)
qed

lemma name_newRecording_A:
  "name (newRecording_A senv r) =
     ''Meeting_'' @ slice_str (toISOString senv) 0 10 @ ''_''
     @ (toString (getHours senv) @ toString (getMinutes senv)) @ ''.''
     @ (if includes_str (mimeType r) ''mp4'' then ''mp4'' else ''webm'')"
  by (simp add: newRecording_A_def Let_def extension_of_finalType)

lemma not_name_form_B: "\<not> spec_name_form (''Meeting '' @ x)"
  by (simp add: spec_name_form_def)

text \<open>
  C8 (as amended). In the first variant the recording that \<^verbatim>\<open>onstop\<close> prepends is
  named \<open>Meeting_\<close>, the first ten characters of the ISO date, \<open>_\<close>, the hour and the
  minute (both unpadded), \<open>.\<close> and the extension, which is \<open>mp4\<close> when the type of the
  recorder contains \<open>mp4\<close> and \<open>webm\<close> otherwise. In the second variant the name is
  \<open>Meeting\<close>, a space and the locale date and time, with no extension.
\<close>

theorem display_name_by_variant:
  "recordings (onstop_A senv r a) = newRecording_A senv r # recordings a
   \<and> name (newRecording_A senv r) =
       ''Meeting_'' @ slice_str (toISOString senv) 0 10 @ ''_''
       @ (toString (getHours senv) @ toString (getMinutes senv)) @ ''.''
       @ (if includes_str (mimeType r) ''mp4'' then ''mp4'' else ''webm'')
   \<and> spec_name_form (name (newRecording_A senv r))
   \<and> recordings (onstop_B senv r b) = newRecording_B senv r # recordings b
   \<and> name (newRecording_B senv r) = ''Meeting '' @ toLocaleString senv"
proof -
  have form: "spec_name_form (''Meeting_'' @ d @ ''_'' @ hm @ ''.'' @ ext)"
    if "ext = ''mp4'' \<or> ext = ''webm''" for d hm ext
    unfolding spec_name_form_def using that by blast
  have f: "spec_name_form (name (newRecording_A senv r))"
    unfolding name_newRecording_A by (rule form) simp
  have a: "recordings (onstop_A senv r a) = newRecording_A senv r # recordings a"
    by (simp add: onstop_A_def)
  have b: "recordings (onstop_B senv r b) = newRecording_B senv r # recordings b"
    by (simp add: onstop_B_def)
  have n: "name (newRecording_B senv r) = ''Meeting '' @ toLocaleString senv"
    by (simp add: newRecording_B_def)
  show ?thesis using f a b n name_newRecording_A by blast
qed

text \<open>
  C8 as stated fails in the second variant: the recording of a session is named
  \<open>Meeting 11/2/2026, 1:54:00 PM\<close>, which is not of the form.
\<close>

theorem display_name_second_variant_counterexample:
  "map name (recordings (run_B [ClickStart (env_of (Inr sys_ok)), ClickStop, RecorderStop senv_ok] init_B))
     = [''Meeting 11/2/2026, 1:54:00 PM'']
   \<and> \<not> spec_name_form ''Meeting 11/2/2026, 1:54:00 PM''"
proof -
  have e: "list_all session_event []" by simp
  have "map name (recordings (run_B (ClickStart (env_of (Inr sys_ok)) # [] @ [ClickStop, RecorderStop senv_ok]) init_B))
     = [''Meeting 11/2/2026, 1:54:00 PM'']"
    unfolding session_B [OF init_facts(4) env_ok_facts(1,2,3,4) e]
    by (simp add: newRecording_B_def senv_ok_def init_facts)
  moreover have "\<not> spec_name_form ''Meeting 11/2/2026, 1:54:00 PM''"
    using not_name_form_B [of "''11/2/2026, 1:54:00 PM''"] by simp
  ultimately show ?thesis by simp
qed

text \<open>
  C9 as stated fails: a session in which the recorder delivers an empty chunk and
  nothing else stores a recording whose payload has no bytes, in either variant.
\<close>

theorem empty_payload_counterexample:
  "map (\<lambda>r. bsize (blob r)) (recordings (run_A [ClickStart (env_of (Inr sys_ok)),
       DataAvailable blob_empty, ClickStop, RecorderStop senv_ok] init_A)) = [0]
   \<and> map (\<lambda>r. bsize (blob r)) (recordings (run_B [ClickStart (env_of (Inr sys_ok)),
       DataAvailable blob_empty, ClickStop, RecorderStop senv_ok] init_B)) = [0]"
proof -
  have e: "list_all session_event [DataAvailable blob_empty]" by simp
  have d: "delivered [DataAvailable blob_empty] = []" by (simp add: blob_empty_def bsize_def)
  have g: "recorderState init_A \<noteq> RECORDING \<and> recorderState init_A \<noteq> PREPARING"
    by (simp add: init_facts)
  have a: "map (\<lambda>r. bsize (blob r)) (recordings (run_A (ClickStart (env_of (Inr sys_ok)) #
       [DataAvailable blob_empty] @ [ClickStop, RecorderStop senv_ok]) init_A)) = [0]"
    unfolding session_A [OF g env_ok_facts(2,3,4) e] d
    by (simp add: newRecording_A_def Let_def new_Blob_def bsize_def init_facts)
  have b: "map (\<lambda>r. bsize (blob r)) (recordings (run_B (ClickStart (env_of (Inr sys_ok)) #
       [DataAvailable blob_empty] @ [ClickStop, RecorderStop senv_ok]) init_B)) = [0]"
    unfolding session_B [OF init_facts(4) env_ok_facts(1,2,3,4) e] d
    by (simp add: newRecording_B_def Let_def new_Blob_def bsize_def init_facts)
  show ?thesis using a b by simp
qed

lemma inner_catch_fields [simp]:
  "recordings (inner_catch_A e a) = recordings a"
  "mediaRecorderRef (inner_catch_A e a) = mediaRecorderRef a"
  "recordings (inner_catch_B e b) = recordings b"
  "mediaRecorderRef (inner_catch_B e b) = mediaRecorderRef b"
  by (simp_all add: inner_catch_A_def inner_catch_B_def Let_def)

lemma capture_microphone_recorder [simp]:
  "mediaRecorderRef (fst (capture_microphone env w s)) = mediaRecorderRef s"
  by (simp add: capture_microphone_def split: sum.splits)

lemma startRecording_recordings [simp]:
  "recordings (startRecording_A env a) = recordings a"
  "recordings (startRecording_B env b) = recordings b"
  by (simp_all add: startRecording_A_def startRecording_B_def Let_def split_beta
      split: sum.splits list.splits)

lemma startRecording_recorder:
  "mediaRecorderRef (startRecording_A env a) = mediaRecorderRef a
   \<or> (\<exists>r. mediaRecorderRef (startRecording_A env a) = Some r \<and> \<not> stop_queued r \<and> chunks r = [])"
  "mediaRecorderRef (startRecording_B env b) = mediaRecorderRef b
   \<or> (\<exists>r. mediaRecorderRef (startRecording_B env b) = Some r \<and> \<not> stop_queued r \<and> chunks r = [])"
  by (simp_all add: startRecording_A_def startRecording_B_def Let_def split_beta
      split: sum.splits list.splits)

lemma recorder_inv_same:
  "mediaRecorderRef s' = mediaRecorderRef s \<Longrightarrow> recorder_inv s \<Longrightarrow> recorder_inv s'"
  by (simp add: recorder_inv_def)

lemma recorder_inv_fresh:
  "mediaRecorderRef s' = Some r \<Longrightarrow> \<not> stop_queued r \<Longrightarrow> chunks r = [] \<Longrightarrow> recorder_inv s'"
  by (simp add: recorder_inv_def)

lemma recorder_inv_start:
  "recorder_inv a \<Longrightarrow> recorder_inv (startRecording_A env a)"
  "recorder_inv b \<Longrightarrow> recorder_inv (startRecording_B env b)"
proof -
  show "recorder_inv a \<Longrightarrow> recorder_inv (startRecording_A env a)"
    using startRecording_recorder(1) [of env a] recorder_inv_same recorder_inv_fresh by blast
  show "recorder_inv b \<Longrightarrow> recorder_inv (startRecording_B env b)"
    using startRecording_recorder(2) [of env b] recorder_inv_same recorder_inv_fresh by blast
qed

lemma recorder_inv_stop_recorder: "recorder_inv s \<Longrightarrow> recorder_inv (stop_recorder s)"
  by (auto simp: recorder_inv_def stop_recorder_def split: option.splits)

lemma recorder_inv_deliver: "recorder_inv s \<Longrightarrow> recorder_inv (deliver_chunk d s)"
  by (auto simp: recorder_inv_def deliver_chunk_def ondataavailable_def split: option.splits)

lemma handleAnalyze_fields [simp]:
  "mediaRecorderRef (handleAnalyze t genv i s) = mediaRecorderRef s"
  "length (recordings (handleAnalyze t genv i s)) = length (recordings s)"
  by (simp_all add: handleAnalyze_def handleAnalyze_begin_def handleAnalyze_settle_def Let_def
      split: option.splits sum.splits prod.splits)

lemma handleDelete_fields [simp]:
  "mediaRecorderRef (handleDelete i s) = mediaRecorderRef s"
  "length (recordings (handleDelete i s)) \<le> length (recordings s)"
  by (simp_all add: handleDelete_def)

lemma recorder_inv_step_A: "recorder_inv s \<Longrightarrow> recorder_inv (step_A e s)"
proof (cases e)
  case (ClickStart env)
  then show "recorder_inv s \<Longrightarrow> recorder_inv (step_A e s)"
    by (simp add: recorder_inv_start)
next
  case ClickStop
  then show "recorder_inv s \<Longrightarrow> recorder_inv (step_A e s)"
    by (simp add: stopRecording_A_def recorder_inv_stop_recorder)
next
  case (TrackEnded t)
  then show "recorder_inv s \<Longrightarrow> recorder_inv (step_A e s)"
    by (simp add: stopRecording_A_def recorder_inv_stop_recorder)
next
  case (DataAvailable d)
  then show "recorder_inv s \<Longrightarrow> recorder_inv (step_A e s)"
    by (simp add: recorder_inv_deliver)
next
  case (RecorderStop senv)
  then show "recorder_inv s \<Longrightarrow> recorder_inv (step_A e s)"
    by (auto simp: recorder_inv_def onstop_A_def split: option.splits)
next
  case (IntervalTick h)
  then show "recorder_inv s \<Longrightarrow> recorder_inv (step_A e s)"
    by (simp add: recorder_inv_def)
next
  case (ClickDelete i)
  then show "recorder_inv s \<Longrightarrow> recorder_inv (step_A e s)"
    by (simp add: recorder_inv_def)
next
  case (ClickAnalyze genv i)
  then show "recorder_inv s \<Longrightarrow> recorder_inv (step_A e s)"
    by (simp add: recorder_inv_def)
next
  case (ToggleMic b)
  then show "recorder_inv s \<Longrightarrow> recorder_inv (step_A e s)"
    by (simp add: recorder_inv_def)
qed

lemma recorder_inv_step_B: "recorder_inv s \<Longrightarrow> recorder_inv (step_B e s)"
proof (cases e)
  case (ClickStart env)
  then show "recorder_inv s \<Longrightarrow> recorder_inv (step_B e s)"
    by (simp add: recorder_inv_start)
next
  case ClickStop
  then show "recorder_inv s \<Longrightarrow> recorder_inv (step_B e s)"
    using recorder_inv_stop_recorder [of s]
    by (simp add: stopRecording_B_def recorder_inv_def)
next
  case (TrackEnded t)
  then show "recorder_inv s \<Longrightarrow> recorder_inv (step_B e s)"
    using recorder_inv_stop_recorder [of s]
    by (simp add: stopRecording_B_def recorder_inv_def)
next
  case (DataAvailable d)
  then show "recorder_inv s \<Longrightarrow> recorder_inv (step_B e s)"
    by (simp add: recorder_inv_deliver)
next
  case (RecorderStop senv)
  then show "recorder_inv s \<Longrightarrow> recorder_inv (step_B e s)"
    by (auto simp: recorder_inv_def onstop_B_def split: option.splits)
next
  case (IntervalTick h)
  then show "recorder_inv s \<Longrightarrow> recorder_inv (step_B e s)"
    by (simp add: recorder_inv_def)
next
  case (ClickDelete i)
  then show "recorder_inv s \<Longrightarrow> recorder_inv (step_B e s)"
    by (simp add: recorder_inv_def)
next
  case (ClickAnalyze genv i)
  then show "recorder_inv s \<Longrightarrow> recorder_inv (step_B e s)"
    by (simp add: recorder_inv_def)
next
  case (ToggleMic b)
  then show "recorder_inv s \<Longrightarrow> recorder_inv (step_B e s)"
    by (simp add: recorder_inv_def)
qed

lemma recorder_inv_run:
  "recorder_inv (run_A es init_A)" "recorder_inv (run_B es init_B)"
proof -
  show "recorder_inv (run_A es init_A)"
  proof (induction es rule: rev_induct)
    case Nil
    show ?case by (simp add: recorder_inv_def init_A_def init_app_def)
  next
    case (snoc e es)
    then show ?case by (simp add: run_A_append recorder_inv_step_A)
  qed
  show "recorder_inv (run_B es init_B)"
  proof (induction es rule: rev_induct)
    case Nil
    show ?case by (simp add: recorder_inv_def init_B_def init_app_def)
  next
    case (snoc e es)
    then show ?case by (simp add: run_B_append recorder_inv_step_B)
  qed
qed

lemma grows_only_on_stop_A:
  assumes "length (recordings s) < length (recordings (step_A e s))"
  shows "\<exists>senv r. e = RecorderStop senv \<and> mediaRecorderRef s = Some r \<and> stop_queued r
           \<and> recordings (step_A e s) = newRecording_A senv r # recordings s"
proof (cases e)
  case (RecorderStop senv)
  with assms show ?thesis
    by (cases "mediaRecorderRef s") (auto simp: onstop_A_def split: if_splits)
next
  case (ClickDelete i)
  with assms handleDelete_fields(2) [of i s] show ?thesis by simp
qed (use assms in \<open>auto simp: stopRecording_A_def stop_recorder_def split: option.splits if_splits\<close>)

lemma grows_only_on_stop_B:
  assumes "length (recordings s) < length (recordings (step_B e s))"
  shows "\<exists>senv r. e = RecorderStop senv \<and> mediaRecorderRef s = Some r \<and> stop_queued r
           \<and> recordings (step_B e s) = newRecording_B senv r # recordings s"
proof (cases e)
  case (RecorderStop senv)
  with assms show ?thesis
    by (cases "mediaRecorderRef s") (auto simp: onstop_B_def split: if_splits)
next
  case (ClickDelete i)
  with assms handleDelete_fields(2) [of i s] show ?thesis by simp
qed (use assms in \<open>auto simp: stopRecording_B_def stop_recorder_def split: option.splits if_splits\<close>)

lemma stop_recorder_fields [simp]:
  "recordings (stop_recorder s) = recordings s"
  "recorderState (stop_recorder s) = recorderState s"
  by (simp_all add: stop_recorder_def split: option.splits)

lemma payload_of_chunks:
  "bytes (blob (newRecording_A senv r)) = concat (map bytes (chunks r))"
  "bytes (blob (newRecording_B senv r)) = concat (map bytes (chunks r))"
  by (simp_all add: newRecording_A_def newRecording_B_def Let_def new_Blob_def)

lemma nonempty_chunks_payload:
  assumes "list_all (\<lambda>c. 0 < bsize c) cs"
  shows "concat (map bytes cs) = [] \<longleftrightarrow> cs = []"
  using assms by (cases cs) (auto simp: bsize_def)

text \<open>
  In a state that either variant reaches from its initial state, a step makes the list
  of recordings longer only if it is the \<^verbatim>\<open>stop\<close> event of the recorder, and the
  recorder is inactive then; the step prepends one recording made of the chunks that
  the recorder holds, none of which is empty.
\<close>

lemma store_grows_on_stop:
  assumes "sa = run_A es init_A" and "sb = run_B es init_B"
  shows "(length (recordings sa) < length (recordings (step_A e sa)) \<longrightarrow>
            (\<exists>senv r. e = RecorderStop senv \<and> mediaRecorderRef sa = Some r \<and> rstate r = inactive
               \<and> recordings (step_A e sa) = newRecording_A senv r # recordings sa
               \<and> bytes (blob (newRecording_A senv r)) = concat (map bytes (chunks r))
               \<and> list_all (\<lambda>c. 0 < bsize c) (chunks r)
               \<and> (bsize (blob (newRecording_A senv r)) = 0 \<longleftrightarrow> chunks r = [])))
         \<and> (length (recordings sb) < length (recordings (step_B e sb)) \<longrightarrow>
            (\<exists>senv r. e = RecorderStop senv \<and> mediaRecorderRef sb = Some r \<and> rstate r = inactive
               \<and> recordings (step_B e sb) = newRecording_B senv r # recordings sb
               \<and> bytes (blob (newRecording_B senv r)) = concat (map bytes (chunks r))
               \<and> list_all (\<lambda>c. 0 < bsize c) (chunks r)
               \<and> (bsize (blob (newRecording_B senv r)) = 0 \<longleftrightarrow> chunks r = [])))"
proof (intro conjI impI)
  assume g: "length (recordings sa) < length (recordings (step_A e sa))"
  from grows_only_on_stop_A [OF g] obtain senv r where
    e: "e = RecorderStop senv" and m: "mediaRecorderRef sa = Some r" and q: "stop_queued r"
    and rs: "recordings (step_A e sa) = newRecording_A senv r # recordings sa"
    by blast
  have "recorder_inv sa" unfolding assms(1) by (rule recorder_inv_run(1))
  with m q have i: "rstate r = inactive" and c: "list_all (\<lambda>c. 0 < bsize c) (chunks r)"
    by (simp_all add: recorder_inv_def)
  have z: "bsize (blob (newRecording_A senv r)) = 0 \<longleftrightarrow> chunks r = []"
    using nonempty_chunks_payload [OF c] by (simp add: bsize_def payload_of_chunks)
  show "\<exists>senv r. e = RecorderStop senv \<and> mediaRecorderRef sa = Some r \<and> rstate r = inactive
               \<and> recordings (step_A e sa) = newRecording_A senv r # recordings sa
               \<and> bytes (blob (newRecording_A senv r)) = concat (map bytes (chunks r))
               \<and> list_all (\<lambda>c. 0 < bsize c) (chunks r)
               \<and> (bsize (blob (newRecording_A senv r)) = 0 \<longleftrightarrow> chunks r = [])"
    (is "\<exists>senv r. ?P senv r")
  proof (intro exI)
    show "?P senv r" using e m i rs c z payload_of_chunks(1) by simp
  qed
next
  assume g: "length (recordings sb) < length (recordings (step_B e sb))"
  from grows_only_on_stop_B [OF g] obtain senv r where
    e: "e = RecorderStop senv" and m: "mediaRecorderRef sb = Some r" and q: "stop_queued r"
    and rs: "recordings (step_B e sb) = newRecording_B senv r # recordings sb"
    by blast
  have "recorder_inv sb" unfolding assms(2) by (rule recorder_inv_run(2))
  with m q have i: "rstate r = inactive" and c: "list_all (\<lambda>c. 0 < bsize c) (chunks r)"
    by (simp_all add: recorder_inv_def)
  have z: "bsize (blob (newRecording_B senv r)) = 0 \<longleftrightarrow> chunks r = []"
    using nonempty_chunks_payload [OF c] by (simp add: bsize_def payload_of_chunks)
  show "\<exists>senv r. e = RecorderStop senv \<and> mediaRecorderRef sb = Some r \<and> rstate r = inactive
               \<and> recordings (step_B e sb) = newRecording_B senv r # recordings sb
               \<and> bytes (blob (newRecording_B senv r)) = concat (map bytes (chunks r))
               \<and> list_all (\<lambda>c. 0 < bsize c) (chunks r)
               \<and> (bsize (blob (newRecording_B senv r)) = 0 \<longleftrightarrow> chunks r = [])"
    (is "\<exists>senv r. ?P senv r")
  proof (intro exI)
    show "?P senv r" using e m i rs c z payload_of_chunks(2) by simp
  qed
qed

lemma before_stop_recordings:
  "recordings before_stop_A = []" "recordings before_stop_B = []"
  by (simp_all add: before_stop_A_def before_stop_B_def stopRecording_A_def stopRecording_B_def
      init_facts split: if_splits)

lemma after_stop_recordings:
  "length (recordings (step_A (RecorderStop senv_ok) before_stop_A)) = 1"
  "length (recordings (step_B (RecorderStop senv_ok) before_stop_B)) = 1"
proof -
  have e: "list_all session_event [DataAvailable blob_ok]" by simp
  have g: "recorderState init_A \<noteq> RECORDING \<and> recorderState init_A \<noteq> PREPARING"
    by (simp add: init_facts)
  have a: "step_A (RecorderStop senv_ok) before_stop_A =
      run_A (ClickStart (env_of (Inr sys_ok)) # [DataAvailable blob_ok] @ [ClickStop, RecorderStop senv_ok]) init_A"
    by (simp add: before_stop_A_def run_A_def)
  have b: "step_B (RecorderStop senv_ok) before_stop_B =
      run_B (ClickStart (env_of (Inr sys_ok)) # [DataAvailable blob_ok] @ [ClickStop, RecorderStop senv_ok]) init_B"
    by (simp add: before_stop_B_def run_B_def)
  show "length (recordings (step_A (RecorderStop senv_ok) before_stop_A)) = 1"
    unfolding a session_A [OF g env_ok_facts(2,3,4) e] by (simp add: init_facts)
  show "length (recordings (step_B (RecorderStop senv_ok) before_stop_B)) = 1"
    unfolding b session_B [OF init_facts(4) env_ok_facts(1,2,3,4) e] by (simp add: init_facts)
qed

text \<open>
  What a session keeps true, from the start to the \<^verbatim>\<open>stop\<close> event, and what the
  recorder has collected at its end.
\<close>

lemma handler_recorderState [simp]:
  "recorderState (handleDelete i s) = recorderState s"
  "recorderState (handleAnalyze t genv i s) = recorderState s"
  by (simp_all add: handleDelete_def handleAnalyze_def handleAnalyze_begin_def
      handleAnalyze_settle_def Let_def split: option.splits sum.splits prod.splits)

lemma in_session_step_A:
  assumes "in_session s r" and "\<not> stop_event e"
  shows "\<exists>r'. in_session (step_A e s) r' \<and> chunks r' = chunks r @ delivered [e]
           \<and> (stop_queued r \<or> e = ClickStop \<longrightarrow> stop_queued r')"
proof (cases e)
  case (DataAvailable d)
  with assms show ?thesis
    by (auto simp: in_session_def deliver_chunk_def ondataavailable_def)
next
  case ClickStop
  with assms show ?thesis
    by (auto simp: in_session_def stopRecording_A_def stop_recorder_def)
next
  case (TrackEnded t)
  with assms show ?thesis
    by (auto simp: in_session_def stopRecording_A_def stop_recorder_def)
next
  case (RecorderStop senv)
  with assms show ?thesis by simp
qed (use assms in \<open>auto simp: in_session_def\<close>)

lemma in_session_step_B:
  assumes "in_session s r" and "\<not> stop_event e"
  shows "\<exists>r'. in_session (step_B e s) r' \<and> chunks r' = chunks r @ delivered [e]
           \<and> (stop_queued r \<or> e = ClickStop \<longrightarrow> stop_queued r')"
proof (cases e)
  case (DataAvailable d)
  with assms show ?thesis
    by (auto simp: in_session_def deliver_chunk_def ondataavailable_def)
next
  case ClickStop
  with assms show ?thesis
    by (auto simp: in_session_def stopRecording_B_def stop_recorder_def)
next
  case (TrackEnded t)
  with assms show ?thesis
    by (auto simp: in_session_def stopRecording_B_def stop_recorder_def)
next
  case (RecorderStop senv)
  with assms show ?thesis by simp
qed (use assms in \<open>auto simp: in_session_def\<close>)

lemma in_session_run_A:
  assumes "list_all (\<lambda>e. \<not> stop_event e) es" and "in_session s r"
  shows "\<exists>r'. in_session (run_A es s) r' \<and> chunks r' = chunks r @ delivered es
           \<and> (stop_queued r \<or> ClickStop \<in> set es \<longrightarrow> stop_queued r')"
  using assms
proof (induction es arbitrary: s r)
  case Nil
  then show ?case by auto
next
  case (Cons e es)
  have e: "\<not> stop_event e" and es: "list_all (\<lambda>e. \<not> stop_event e) es"
    using Cons.prems(1) by simp_all
  from in_session_step_A [OF Cons.prems(2) e] obtain r1 where
    r1: "in_session (step_A e s) r1" "chunks r1 = chunks r @ delivered [e]"
      "stop_queued r \<or> e = ClickStop \<longrightarrow> stop_queued r1"
    by blast
  from Cons.IH [OF es r1(1)] obtain r' where
    r': "in_session (run_A es (step_A e s)) r'" "chunks r' = chunks r1 @ delivered es"
      "stop_queued r1 \<or> ClickStop \<in> set es \<longrightarrow> stop_queued r'"
    by blast
  have c: "chunks r' = chunks r @ delivered (e # es)"
    using r'(2) r1(2) delivered_Cons [of e es] by simp
  have q: "stop_queued r \<or> ClickStop \<in> set (e # es) \<longrightarrow> stop_queued r'"
    using r1(3) r'(3) by auto
  show ?case
  proof (intro exI conjI)
    show "in_session (run_A (e # es) s) r'" using r'(1) by simp
    show "chunks r' = chunks r @ delivered (e # es)" by (rule c)
    show "stop_queued r \<or> ClickStop \<in> set (e # es) \<longrightarrow> stop_queued r'" by (rule q)
  qed
qed

lemma in_session_run_B:
  assumes "list_all (\<lambda>e. \<not> stop_event e) es" and "in_session s r"
  shows "\<exists>r'. in_session (run_B es s) r' \<and> chunks r' = chunks r @ delivered es
           \<and> (stop_queued r \<or> ClickStop \<in> set es \<longrightarrow> stop_queued r')"
  using assms
proof (induction es arbitrary: s r)
  case Nil
  then show ?case by auto
next
  case (Cons e es)
  have e: "\<not> stop_event e" and es: "list_all (\<lambda>e. \<not> stop_event e) es"
    using Cons.prems(1) by simp_all
  from in_session_step_B [OF Cons.prems(2) e] obtain r1 where
    r1: "in_session (step_B e s) r1" "chunks r1 = chunks r @ delivered [e]"
      "stop_queued r \<or> e = ClickStop \<longrightarrow> stop_queued r1"
    by blast
  from Cons.IH [OF es r1(1)] obtain r' where
    r': "in_session (run_B es (step_B e s)) r'" "chunks r' = chunks r1 @ delivered es"
      "stop_queued r1 \<or> ClickStop \<in> set es \<longrightarrow> stop_queued r'"
    by blast
  have c: "chunks r' = chunks r @ delivered (e # es)"
    using r'(2) r1(2) delivered_Cons [of e es] by simp
  have q: "stop_queued r \<or> ClickStop \<in> set (e # es) \<longrightarrow> stop_queued r'"
    using r1(3) r'(3) by auto
  show ?case
  proof (intro exI conjI)
    show "in_session (run_B (e # es) s) r'" using r'(1) by simp
    show "chunks r' = chunks r @ delivered (e # es)" by (rule c)
    show "stop_queued r \<or> ClickStop \<in> set (e # es) \<longrightarrow> stop_queued r'" by (rule q)
  qed
qed

lemma delivered_nonempty: "list_all (\<lambda>c. 0 < bsize c) (delivered es)"
  by (induction es rule: delivered.induct) simp_all

lemma started_in_session:
  assumes "getDisplayMedia_result env = Inr sys" and "getAudioTracks sys \<noteq> []"
    and "getVideoTracks sys \<noteq> []"
  shows "recorderState a \<noteq> RECORDING \<and> recorderState a \<noteq> PREPARING \<Longrightarrow>
         \<exists>r. in_session (step_A (ClickStart env) a) r \<and> chunks r = [] \<and> \<not> stop_queued r"
    and "recorderState b = IDLE \<Longrightarrow> mediaDevices_supported env \<Longrightarrow>
         \<exists>r. in_session (step_B (ClickStart env) b) r \<and> chunks r = [] \<and> \<not> stop_queued r"
proof -
  show "\<exists>r. in_session (step_A (ClickStart env) a) r \<and> chunks r = [] \<and> \<not> stop_queued r"
    if "recorderState a \<noteq> RECORDING \<and> recorderState a \<noteq> PREPARING"
    using that startRecording_A_started(1,5) [OF assms, of a]
    by (simp add: in_session_def recorder_of_def)
  show "\<exists>r. in_session (step_B (ClickStart env) b) r \<and> chunks r = [] \<and> \<not> stop_queued r"
    if "recorderState b = IDLE" and "mediaDevices_supported env"
    using that startRecording_B_started(1,5) [OF that(2) assms, of b]
    by (simp add: in_session_def recorder_of_def)
qed

lemma session_payload_A:
  assumes "recorderState a \<noteq> RECORDING \<and> recorderState a \<noteq> PREPARING"
    and "getDisplayMedia_result env = Inr sys" and "getAudioTracks sys \<noteq> []"
    and "getVideoTracks sys \<noteq> []" and "list_all (\<lambda>e. \<not> stop_event e) es"
    and "s1 = run_A (ClickStart env # es) a"
  shows "\<exists>r. mediaRecorderRef s1 = Some r \<and> chunks r = delivered es
           \<and> (ClickStop \<in> set es \<longrightarrow> stop_queued r)
           \<and> (stop_queued r \<longrightarrow>
                rstate r = inactive
                \<and> recordings (step_A (RecorderStop senv) s1) = newRecording_A senv r # recordings s1
                \<and> bytes (blob (newRecording_A senv r)) = concat (map bytes (delivered es))
                \<and> (bsize (blob (newRecording_A senv r)) = 0 \<longleftrightarrow> delivered es = []))
           \<and> (\<not> stop_queued r \<longrightarrow> step_A (RecorderStop senv) s1 = s1)"
proof -
  from started_in_session(1) [OF assms(2,3,4,1)] obtain r0 where
    r0: "in_session (step_A (ClickStart env) a) r0" "chunks r0 = []"
    by blast
  from in_session_run_A [OF assms(5) r0(1)] obtain r where
    r: "in_session s1 r" "chunks r = delivered es" "ClickStop \<in> set es \<longrightarrow> stop_queued r"
    unfolding assms(6) using r0(2) by auto
  have m: "mediaRecorderRef s1 = Some r" using r(1) by (simp add: in_session_def)
  have i: "stop_queued r \<longrightarrow> rstate r = inactive" using r(1) by (auto simp: in_session_def)
  have z: "concat (map bytes (delivered es)) = [] \<longleftrightarrow> delivered es = []"
    using nonempty_chunks_payload [OF delivered_nonempty] .
  show ?thesis
  proof (intro exI conjI impI)
    show "mediaRecorderRef s1 = Some r" by (rule m)
    show "chunks r = delivered es" by (rule r(2))
    show "stop_queued r" if "ClickStop \<in> set es" using that r(3) by blast
    show "rstate r = inactive" if "stop_queued r" using that i by blast
    show "recordings (step_A (RecorderStop senv) s1) = newRecording_A senv r # recordings s1"
      if "stop_queued r" using recorder_stop_A(1) [OF m that] .
    show "bytes (blob (newRecording_A senv r)) = concat (map bytes (delivered es))"
      using payload_of_chunks(1) [of senv r] r(2) by simp
    show "bsize (blob (newRecording_A senv r)) = 0 \<longleftrightarrow> delivered es = []"
      using payload_of_chunks(1) [of senv r] r(2) z by (simp add: bsize_def)
    show "step_A (RecorderStop senv) s1 = s1" if "\<not> stop_queued r"
      using m that by simp
  qed
qed

lemma session_payload_B:
  assumes "recorderState b = IDLE" and "mediaDevices_supported env"
    and "getDisplayMedia_result env = Inr sys" and "getAudioTracks sys \<noteq> []"
    and "getVideoTracks sys \<noteq> []" and "list_all (\<lambda>e. \<not> stop_event e) es"
    and "s1 = run_B (ClickStart env # es) b"
  shows "\<exists>r. mediaRecorderRef s1 = Some r \<and> chunks r = delivered es
           \<and> (ClickStop \<in> set es \<longrightarrow> stop_queued r)
           \<and> (stop_queued r \<longrightarrow>
                rstate r = inactive
                \<and> recordings (step_B (RecorderStop senv) s1) = newRecording_B senv r # recordings s1
                \<and> bytes (blob (newRecording_B senv r)) = concat (map bytes (delivered es))
                \<and> (bsize (blob (newRecording_B senv r)) = 0 \<longleftrightarrow> delivered es = []))
           \<and> (\<not> stop_queued r \<longrightarrow> step_B (RecorderStop senv) s1 = s1)"
proof -
  from started_in_session(2) [OF assms(3,4,5,1,2)] obtain r0 where
    r0: "in_session (step_B (ClickStart env) b) r0" "chunks r0 = []"
    by blast
  from in_session_run_B [OF assms(6) r0(1)] obtain r where
    r: "in_session s1 r" "chunks r = delivered es" "ClickStop \<in> set es \<longrightarrow> stop_queued r"
    unfolding assms(7) using r0(2) by auto
  have m: "mediaRecorderRef s1 = Some r" using r(1) by (simp add: in_session_def)
  have i: "stop_queued r \<longrightarrow> rstate r = inactive" using r(1) by (auto simp: in_session_def)
  have z: "concat (map bytes (delivered es)) = [] \<longleftrightarrow> delivered es = []"
    using nonempty_chunks_payload [OF delivered_nonempty] .
  show ?thesis
  proof (intro exI conjI impI)
    show "mediaRecorderRef s1 = Some r" by (rule m)
    show "chunks r = delivered es" by (rule r(2))
    show "stop_queued r" if "ClickStop \<in> set es" using that r(3) by blast
    show "rstate r = inactive" if "stop_queued r" using that i by blast
    show "recordings (step_B (RecorderStop senv) s1) = newRecording_B senv r # recordings s1"
      if "stop_queued r" using recorder_stop_B(1) [OF m that] .
    show "bytes (blob (newRecording_B senv r)) = concat (map bytes (delivered es))"
      using payload_of_chunks(2) [of senv r] r(2) by simp
    show "bsize (blob (newRecording_B senv r)) = 0 \<longleftrightarrow> delivered es = []"
      using payload_of_chunks(2) [of senv r] r(2) z by (simp add: bsize_def)
    show "step_B (RecorderStop senv) s1 = s1" if "\<not> stop_queued r"
      using m that by simp
  qed
qed

text \<open>
  C9 (as amended). First, in a state that either variant reaches from its initial
  state, a step makes the list of recordings longer only if it is the \<^verbatim>\<open>stop\<close>
  event of the recorder, and the recorder is inactive then; the step prepends one
  recording. Second, take a session: the start button is clicked where it can be and
  the capture is granted, and any events but the \<^verbatim>\<open>stop\<close> event follow. Then the
  recorder holds exactly the chunks delivered since the start that are not empty, in
  their order. Its \<^verbatim>\<open>stop\<close> event is owed if the stop button was clicked; when it
  is owed, the event prepends one recording whose payload is the concatenation of
  those chunks, so the payload is empty exactly when no chunk that is not empty was
  delivered; when it is not owed, the event changes nothing.
\<close>

theorem recording_enters_store_on_stop:
  assumes "sa = run_A es0 init_A" and "sb = run_B es0 init_B"
    and "recorderState a \<noteq> RECORDING \<and> recorderState a \<noteq> PREPARING"
    and "recorderState b = IDLE" and "mediaDevices_supported env"
    and "getDisplayMedia_result env = Inr sys" and "getAudioTracks sys \<noteq> []"
    and "getVideoTracks sys \<noteq> []" and "list_all (\<lambda>e. \<not> stop_event e) es"
    and "a1 = run_A (ClickStart env # es) a" and "b1 = run_B (ClickStart env # es) b"
  shows "(length (recordings sa) < length (recordings (step_A e sa)) \<longrightarrow>
            (\<exists>senv r. e = RecorderStop senv \<and> mediaRecorderRef sa = Some r \<and> rstate r = inactive
               \<and> recordings (step_A e sa) = newRecording_A senv r # recordings sa
               \<and> bytes (blob (newRecording_A senv r)) = concat (map bytes (chunks r))
               \<and> list_all (\<lambda>c. 0 < bsize c) (chunks r)
               \<and> (bsize (blob (newRecording_A senv r)) = 0 \<longleftrightarrow> chunks r = [])))
         \<and> (length (recordings sb) < length (recordings (step_B e sb)) \<longrightarrow>
            (\<exists>senv r. e = RecorderStop senv \<and> mediaRecorderRef sb = Some r \<and> rstate r = inactive
               \<and> recordings (step_B e sb) = newRecording_B senv r # recordings sb
               \<and> bytes (blob (newRecording_B senv r)) = concat (map bytes (chunks r))
               \<and> list_all (\<lambda>c. 0 < bsize c) (chunks r)
               \<and> (bsize (blob (newRecording_B senv r)) = 0 \<longleftrightarrow> chunks r = [])))
         \<and> (\<exists>r. mediaRecorderRef a1 = Some r \<and> chunks r = delivered es
               \<and> (ClickStop \<in> set es \<longrightarrow> stop_queued r)
               \<and> (stop_queued r \<longrightarrow>
                    rstate r = inactive
                    \<and> recordings (step_A (RecorderStop senv') a1) = newRecording_A senv' r # recordings a1
                    \<and> bytes (blob (newRecording_A senv' r)) = concat (map bytes (delivered es))
                    \<and> (bsize (blob (newRecording_A senv' r)) = 0 \<longleftrightarrow> delivered es = []))
               \<and> (\<not> stop_queued r \<longrightarrow> step_A (RecorderStop senv') a1 = a1))
         \<and> (\<exists>r. mediaRecorderRef b1 = Some r \<and> chunks r = delivered es
               \<and> (ClickStop \<in> set es \<longrightarrow> stop_queued r)
               \<and> (stop_queued r \<longrightarrow>
                    rstate r = inactive
                    \<and> recordings (step_B (RecorderStop senv') b1) = newRecording_B senv' r # recordings b1
                    \<and> bytes (blob (newRecording_B senv' r)) = concat (map bytes (delivered es))
                    \<and> (bsize (blob (newRecording_B senv' r)) = 0 \<longleftrightarrow> delivered es = []))
               \<and> (\<not> stop_queued r \<longrightarrow> step_B (RecorderStop senv') b1 = b1))"
proof (intro conjI)
  note g = store_grows_on_stop [OF assms(1,2), of e]
  show "length (recordings sa) < length (recordings (step_A e sa)) \<longrightarrow>
            (\<exists>senv r. e = RecorderStop senv \<and> mediaRecorderRef sa = Some r \<and> rstate r = inactive
               \<and> recordings (step_A e sa) = newRecording_A senv r # recordings sa
               \<and> bytes (blob (newRecording_A senv r)) = concat (map bytes (chunks r))
               \<and> list_all (\<lambda>c. 0 < bsize c) (chunks r)
               \<and> (bsize (blob (newRecording_A senv r)) = 0 \<longleftrightarrow> chunks r = []))"
    using g by (rule conjunct1)
  show "length (recordings sb) < length (recordings (step_B e sb)) \<longrightarrow>
            (\<exists>senv r. e = RecorderStop senv \<and> mediaRecorderRef sb = Some r \<and> rstate r = inactive
               \<and> recordings (step_B e sb) = newRecording_B senv r # recordings sb
               \<and> bytes (blob (newRecording_B senv r)) = concat (map bytes (chunks r))
               \<and> list_all (\<lambda>c. 0 < bsize c) (chunks r)
               \<and> (bsize (blob (newRecording_B senv r)) = 0 \<longleftrightarrow> chunks r = []))"
    using g by (rule conjunct2)
  show "\<exists>r. mediaRecorderRef a1 = Some r \<and> chunks r = delivered es
               \<and> (ClickStop \<in> set es \<longrightarrow> stop_queued r)
               \<and> (stop_queued r \<longrightarrow>
                    rstate r = inactive
                    \<and> recordings (step_A (RecorderStop senv') a1) = newRecording_A senv' r # recordings a1
                    \<and> bytes (blob (newRecording_A senv' r)) = concat (map bytes (delivered es))
                    \<and> (bsize (blob (newRecording_A senv' r)) = 0 \<longleftrightarrow> delivered es = []))
               \<and> (\<not> stop_queued r \<longrightarrow> step_A (RecorderStop senv') a1 = a1)"
    using session_payload_A [OF assms(3,6,7,8,9,10)] .
  show "\<exists>r. mediaRecorderRef b1 = Some r \<and> chunks r = delivered es
               \<and> (ClickStop \<in> set es \<longrightarrow> stop_queued r)
               \<and> (stop_queued r \<longrightarrow>
                    rstate r = inactive
                    \<and> recordings (step_B (RecorderStop senv') b1) = newRecording_B senv' r # recordings b1
                    \<and> bytes (blob (newRecording_B senv' r)) = concat (map bytes (delivered es))
                    \<and> (bsize (blob (newRecording_B senv' r)) = 0 \<longleftrightarrow> delivered es = []))
               \<and> (\<not> stop_queued r \<longrightarrow> step_B (RecorderStop senv') b1 = b1)"
    using session_payload_B [OF assms(4,5,6,7,8,9,11)] .
qed

lemma session_ok_facts:
  "list_all (\<lambda>e. \<not> stop_event e) session_ok" "ClickStop \<in> set session_ok"
  "delivered session_ok = [blob_ok]" "concat (map bytes [blob_ok]) = [1, 2, 3]"
  by (simp_all add: session_ok_def blob_ok_def blob_empty_def bsize_def)

lemma session_ok_recordings:
  "recordings (run_A (ClickStart (env_of (Inr sys_ok)) # session_ok) init_A) = []"
  "recordings (run_B (ClickStart (env_of (Inr sys_ok)) # session_ok) init_B) = []"
  by (simp_all add: session_ok_def stopRecording_A_def stopRecording_B_def init_facts
      split: if_splits)

theorem recording_enters_store_on_stop_witness:
  "before_stop_A = run_A [ClickStart (env_of (Inr sys_ok)), DataAvailable blob_ok, ClickStop] init_A
   \<and> before_stop_B = run_B [ClickStart (env_of (Inr sys_ok)), DataAvailable blob_ok, ClickStop] init_B
   \<and> (recorderState init_A \<noteq> RECORDING \<and> recorderState init_A \<noteq> PREPARING)
   \<and> recorderState init_B = IDLE
   \<and> mediaDevices_supported (env_of (Inr sys_ok))
   \<and> getDisplayMedia_result (env_of (Inr sys_ok)) = Inr sys_ok
   \<and> getAudioTracks sys_ok \<noteq> [] \<and> getVideoTracks sys_ok \<noteq> []
   \<and> list_all (\<lambda>e. \<not> stop_event e) session_ok \<and> ClickStop \<in> set session_ok
   \<and> length (recordings before_stop_A) < length (recordings (step_A (RecorderStop senv_ok) before_stop_A))
   \<and> length (recordings before_stop_B) < length (recordings (step_B (RecorderStop senv_ok) before_stop_B))
   \<and> (\<exists>r. mediaRecorderRef before_stop_A = Some r \<and> rstate r = inactive
          \<and> recordings (step_A (RecorderStop senv_ok) before_stop_A) = [newRecording_A senv_ok r]
          \<and> list_all (\<lambda>c. 0 < bsize c) (chunks r))
   \<and> (\<exists>r. mediaRecorderRef before_stop_B = Some r \<and> rstate r = inactive
          \<and> recordings (step_B (RecorderStop senv_ok) before_stop_B) = [newRecording_B senv_ok r]
          \<and> list_all (\<lambda>c. 0 < bsize c) (chunks r))
   \<and> (\<exists>r. mediaRecorderRef (run_A (ClickStart (env_of (Inr sys_ok)) # session_ok) init_A) = Some r
          \<and> chunks r = [blob_ok] \<and> stop_queued r \<and> rstate r = inactive
          \<and> recordings (step_A (RecorderStop senv_ok)
                (run_A (ClickStart (env_of (Inr sys_ok)) # session_ok) init_A))
              = [newRecording_A senv_ok r]
          \<and> bytes (blob (newRecording_A senv_ok r)) = [1, 2, 3])
   \<and> (\<exists>r. mediaRecorderRef (run_B (ClickStart (env_of (Inr sys_ok)) # session_ok) init_B) = Some r
          \<and> chunks r = [blob_ok] \<and> stop_queued r \<and> rstate r = inactive
          \<and> recordings (step_B (RecorderStop senv_ok)
                (run_B (ClickStart (env_of (Inr sys_ok)) # session_ok) init_B))
              = [newRecording_B senv_ok r]
          \<and> bytes (blob (newRecording_B senv_ok r)) = [1, 2, 3])"
proof -
  let ?env = "env_of (Inr sys_ok)"
  have gA: "recorderState init_A \<noteq> RECORDING \<and> recorderState init_A \<noteq> PREPARING"
    by (simp add: init_facts)
  have ga: "length (recordings before_stop_A) < length (recordings (step_A (RecorderStop senv_ok) before_stop_A))"
    unfolding after_stop_recordings before_stop_recordings by simp
  have gb: "length (recordings before_stop_B) < length (recordings (step_B (RecorderStop senv_ok) before_stop_B))"
    unfolding after_stop_recordings before_stop_recordings by simp
  note th = recording_enters_store_on_stop [OF before_stop_A_def before_stop_B_def gA
      init_facts(4) env_ok_facts(1,2,3,4) session_ok_facts(1) refl refl,
      where e = "RecorderStop senv_ok" and senv' = senv_ok]
  from th [THEN conjunct1] ga have "\<exists>senv r. RecorderStop senv_ok = RecorderStop senv
      \<and> mediaRecorderRef before_stop_A = Some r \<and> rstate r = inactive
      \<and> recordings (step_A (RecorderStop senv_ok) before_stop_A) = newRecording_A senv r # recordings before_stop_A
      \<and> list_all (\<lambda>c. 0 < bsize c) (chunks r)"
    by blast
  then have a: "\<exists>r. mediaRecorderRef before_stop_A = Some r \<and> rstate r = inactive
          \<and> recordings (step_A (RecorderStop senv_ok) before_stop_A) = [newRecording_A senv_ok r]
          \<and> list_all (\<lambda>c. 0 < bsize c) (chunks r)"
    unfolding before_stop_recordings by blast
  from th [THEN conjunct2, THEN conjunct1] gb have "\<exists>senv r. RecorderStop senv_ok = RecorderStop senv
      \<and> mediaRecorderRef before_stop_B = Some r \<and> rstate r = inactive
      \<and> recordings (step_B (RecorderStop senv_ok) before_stop_B) = newRecording_B senv r # recordings before_stop_B
      \<and> list_all (\<lambda>c. 0 < bsize c) (chunks r)"
    by blast
  then have b: "\<exists>r. mediaRecorderRef before_stop_B = Some r \<and> rstate r = inactive
          \<and> recordings (step_B (RecorderStop senv_ok) before_stop_B) = [newRecording_B senv_ok r]
          \<and> list_all (\<lambda>c. 0 < bsize c) (chunks r)"
    unfolding before_stop_recordings by blast
  have c: "\<exists>r. mediaRecorderRef (run_A (ClickStart ?env # session_ok) init_A) = Some r
          \<and> chunks r = [blob_ok] \<and> stop_queued r \<and> rstate r = inactive
          \<and> recordings (step_A (RecorderStop senv_ok) (run_A (ClickStart ?env # session_ok) init_A))
              = [newRecording_A senv_ok r]
          \<and> bytes (blob (newRecording_A senv_ok r)) = [1, 2, 3]"
    using th [THEN conjunct2, THEN conjunct2, THEN conjunct1] session_ok_facts(2)
    unfolding session_ok_facts(3,4) session_ok_recordings by blast
  have d: "\<exists>r. mediaRecorderRef (run_B (ClickStart ?env # session_ok) init_B) = Some r
          \<and> chunks r = [blob_ok] \<and> stop_queued r \<and> rstate r = inactive
          \<and> recordings (step_B (RecorderStop senv_ok) (run_B (ClickStart ?env # session_ok) init_B))
              = [newRecording_B senv_ok r]
          \<and> bytes (blob (newRecording_B senv_ok r)) = [1, 2, 3]"
    using th [THEN conjunct2, THEN conjunct2, THEN conjunct2] session_ok_facts(2)
    unfolding session_ok_facts(3,4) session_ok_recordings by blast
  show ?thesis
    using a b c d ga gb gA init_facts(4) env_ok_facts(1,2,3,4) session_ok_facts(1,2)
      before_stop_A_def before_stop_B_def
    by blast
qed

end
